theory Spec2Isabelle
  imports Complex_Main "HOL-Library.Word" "HOL-Library.Sublist" "HOL-Library.Log_Nat"
begin

chapter \<open>JJ Enterprises web front-end: box geometry, checkout, configurator, security utilities\<close>

text \<open>
  Conventions of the embedding.
  \<^item> A JavaScript number that the program computes with (prices, quantities, volumes,
    animation progress, limits, clock values) is a double, the type \<open>jsnum\<close> of the
    section on JavaScript numbers: every sum, difference, product and quotient is rounded
    to the nearest double as IEEE 754 has it, and \<open>NaN\<close> and the infinities are values.
    The dimensions of the box geometry are \<^typ>\<open>real\<close>: the claim about them
    compares the results of the same expressions, and uses no property of the arithmetic.
  \<^item> A JavaScript string that comes from outside the program (form fields, passwords,
    tokens, stored values) is a list of UTF-16 code units, \<open>16 word list\<close>; \<open>length\<close>
    counts code units as \<open>String.prototype.length\<close> does.
  \<^item> A string literal of the source that is only compared with other literals (style
    keys, part names, folding steps) is a \<^typ>\<open>string\<close>.
\<close>

type_synonym jsstring = "16 word list"

definition js :: "string \<Rightarrow> jsstring" where
  \<comment> \<open>an ASCII literal of the source as code units\<close>
  "js s = map of_char s"

section \<open>Box geometry (components/enhanced-3d-configurator.tsx)\<close>

record BoxGeometry =
  \<comment> \<open>\<open>new THREE.BoxGeometry(width, height, depth)\<close>\<close>
  gwidth :: real
  gheight :: real
  gdepth :: real

record Vector3 =
  vx :: real
  vy :: real
  vz :: real

record Euler =
  ex :: real
  ey :: real
  ez :: real

record part =
  geometry :: BoxGeometry
  position :: Vector3
  rotation :: "Euler option"
  name :: string

definition mkpart :: "real \<Rightarrow> real \<Rightarrow> real \<Rightarrow> real \<Rightarrow> real \<Rightarrow> real \<Rightarrow> string \<Rightarrow> part" where
  \<comment> \<open>the object literal \<open>{ geometry: new THREE.BoxGeometry(a, b, c),
      position: new THREE.Vector3(x, y, z), name: n }\<close>, with no rotation\<close>
  "mkpart a b c x y z n =
     \<lparr> geometry = \<lparr> gwidth = a, gheight = b, gdepth = c \<rparr>,
       position = \<lparr> vx = x, vy = y, vz = z \<rparr>,
       rotation = None,
       name = n \<rparr>"

definition createRSCGeometry :: "real \<Rightarrow> real \<Rightarrow> real \<Rightarrow> real \<Rightarrow> part list" where
  "createRSCGeometry length' width height thickness =
    (let flapLength = width * (6 / 10) in
     [ mkpart length' thickness width  0 (- height / 2) 0  ''bottom'',
       mkpart length' thickness width  0 (height / 2) 0  ''top'',
       mkpart thickness height width  (- length' / 2) 0 0  ''left-side'',
       mkpart thickness height width  (length' / 2) 0 0  ''right-side'',
       mkpart length' height thickness  0 0 (- width / 2)  ''front'',
       mkpart length' height thickness  0 0 (width / 2)  ''back'',
       mkpart length' thickness flapLength
         0 (- height / 2 - thickness) (- width / 2 - flapLength / 2)  ''bottom-front-flap'',
       mkpart length' thickness flapLength
         0 (- height / 2 - thickness) (width / 2 + flapLength / 2)  ''bottom-back-flap'',
       mkpart flapLength thickness width
         (- length' / 2 - flapLength / 2) (- height / 2 - thickness) 0  ''bottom-left-flap'',
       mkpart flapLength thickness width
         (length' / 2 + flapLength / 2) (- height / 2 - thickness) 0  ''bottom-right-flap'',
       mkpart length' thickness flapLength
         0 (height / 2 + thickness) (- width / 2 - flapLength / 2)  ''top-front-flap'',
       mkpart length' thickness flapLength
         0 (height / 2 + thickness) (width / 2 + flapLength / 2)  ''top-back-flap'',
       mkpart flapLength thickness width
         (- length' / 2 - flapLength / 2) (height / 2 + thickness) 0  ''top-left-flap'',
       mkpart flapLength thickness width
         (length' / 2 + flapLength / 2) (height / 2 + thickness) 0  ''top-right-flap'' ])"

definition createAutoBottomGeometry :: "real \<Rightarrow> real \<Rightarrow> real \<Rightarrow> real \<Rightarrow> part list" where
  "createAutoBottomGeometry length' width height thickness =
    (let parts = createRSCGeometry length' width height thickness;
         tabWidth = width * (3 / 10);
         tabHeight = height * (2 / 10)
     in parts @
       [ mkpart tabWidth tabHeight thickness
           (- length' / 4) (- height / 2 + tabHeight / 2) (- width / 2)  ''auto-lock-tab-1'',
         mkpart tabWidth tabHeight thickness
           (length' / 4) (- height / 2 + tabHeight / 2) (- width / 2)  ''auto-lock-tab-2'' ])"

definition createDisplayBoxGeometry :: "real \<Rightarrow> real \<Rightarrow> real \<Rightarrow> real \<Rightarrow> part list" where
  "createDisplayBoxGeometry length' width height thickness =
    (let baseHeight = height * (6 / 10);
         displayHeight = height * (4 / 10)
     in
     [ mkpart length' thickness width  0 (- baseHeight / 2) 0  ''bottom'',
       mkpart thickness baseHeight width  (- length' / 2) 0 0  ''left-side'',
       mkpart thickness baseHeight width  (length' / 2) 0 0  ''right-side'',
       mkpart length' baseHeight thickness  0 0 (- width / 2)  ''front'',
       (mkpart length' displayHeight thickness
          0 (baseHeight / 2 + displayHeight / 4) (width / 2)  ''display-panel'')
         \<lparr> rotation := Some \<lparr> ex = - pi / 6, ey = 0, ez = 0 \<rparr> \<rparr> ])"

text \<open>The "placeholder functions for other box styles" of the source.\<close>

definition createDrawerBoxGeometry :: "real \<Rightarrow> real \<Rightarrow> real \<Rightarrow> real \<Rightarrow> part list" where
  "createDrawerBoxGeometry length' width height thickness =
     createRSCGeometry length' width height thickness"

definition createFoldingBoxGeometry :: "real \<Rightarrow> real \<Rightarrow> real \<Rightarrow> real \<Rightarrow> part list" where
  "createFoldingBoxGeometry length' width height thickness =
     createRSCGeometry length' width height thickness"

definition createGableTopGeometry :: "real \<Rightarrow> real \<Rightarrow> real \<Rightarrow> real \<Rightarrow> part list" where
  "createGableTopGeometry length' width height thickness =
     createRSCGeometry length' width height thickness"

definition createPillowBoxGeometry :: "real \<Rightarrow> real \<Rightarrow> real \<Rightarrow> real \<Rightarrow> part list" where
  "createPillowBoxGeometry length' width height thickness =
     createRSCGeometry length' width height thickness"

definition createTuckEndGeometry :: "real \<Rightarrow> real \<Rightarrow> real \<Rightarrow> real \<Rightarrow> part list" where
  "createTuckEndGeometry length' width height thickness =
     createRSCGeometry length' width height thickness"

definition createHingedLidGeometry :: "real \<Rightarrow> real \<Rightarrow> real \<Rightarrow> real \<Rightarrow> part list" where
  "createHingedLidGeometry length' width height thickness =
     createRSCGeometry length' width height thickness"

definition boxGeometry :: "string \<Rightarrow> real \<Rightarrow> real \<Rightarrow> real \<Rightarrow> real \<Rightarrow> part list" where
  \<comment> \<open>the \<open>switch (style)\<close> of \<open>Enhanced3DBox\<close>, its \<open>default\<close> last\<close>
  "boxGeometry style length' width height thickness =
    (if style = ''rsc'' then createRSCGeometry length' width height thickness
     else if style = ''autoBottom'' then createAutoBottomGeometry length' width height thickness
     else if style = ''display'' then createDisplayBoxGeometry length' width height thickness
     else if style = ''drawer'' then createDrawerBoxGeometry length' width height thickness
     else if style = ''folding'' then createFoldingBoxGeometry length' width height thickness
     else if style = ''gableTop'' then createGableTopGeometry length' width height thickness
     else if style = ''pillow'' then createPillowBoxGeometry length' width height thickness
     else if style = ''tuckEnd'' then createTuckEndGeometry length' width height thickness
     else if style = ''hingedLid'' then createHingedLidGeometry length' width height thickness
     else createRSCGeometry length' width height thickness)"

lemma length_createRSCGeometry: "length (createRSCGeometry l w h t) = 14"
  by (simp add: createRSCGeometry_def Let_def)

lemma length_createAutoBottomGeometry: "length (createAutoBottomGeometry l w h t) = 16"
  by (simp add: createAutoBottomGeometry_def Let_def length_createRSCGeometry)

lemma length_createDisplayBoxGeometry: "length (createDisplayBoxGeometry l w h t) = 5"
  by (simp add: createDisplayBoxGeometry_def Let_def)

lemma boxGeometry_stub_styles:
  "boxGeometry ''drawer'' l w h t = createRSCGeometry l w h t"
  "boxGeometry ''folding'' l w h t = createRSCGeometry l w h t"
  "boxGeometry ''gableTop'' l w h t = createRSCGeometry l w h t"
  "boxGeometry ''pillow'' l w h t = createRSCGeometry l w h t"
  "boxGeometry ''tuckEnd'' l w h t = createRSCGeometry l w h t"
  "boxGeometry ''hingedLid'' l w h t = createRSCGeometry l w h t"
  by (simp_all add: boxGeometry_def createDrawerBoxGeometry_def createFoldingBoxGeometry_def
      createGableTopGeometry_def createPillowBoxGeometry_def createTuckEndGeometry_def
      createHingedLidGeometry_def)

lemma boxGeometry_own_styles:
  "boxGeometry ''rsc'' l w h t = createRSCGeometry l w h t"
  "boxGeometry ''autoBottom'' l w h t = createAutoBottomGeometry l w h t"
  "boxGeometry ''display'' l w h t = createDisplayBoxGeometry l w h t"
  by (simp_all add: boxGeometry_def)

text \<open>
  Claim C1. Each of the six styles drawer, folding, gableTop, pillow, tuckEnd and hingedLid
  has a generator that returns, for all dimension arguments, exactly the list of parts of
  \<open>createRSCGeometry\<close> on the same arguments, and the style switch selects that
  generator. The only styles whose geometry is not that list are among rsc, autoBottom and
  display: autoBottom (two more parts) and display (five parts) differ from it for all
  arguments, rsc is the default generator itself.
\<close>

theorem C1_stub_styles_are_rsc:
  "createDrawerBoxGeometry l w h t = createRSCGeometry l w h t
   \<and> createFoldingBoxGeometry l w h t = createRSCGeometry l w h t
   \<and> createGableTopGeometry l w h t = createRSCGeometry l w h t
   \<and> createPillowBoxGeometry l w h t = createRSCGeometry l w h t
   \<and> createTuckEndGeometry l w h t = createRSCGeometry l w h t
   \<and> createHingedLidGeometry l w h t = createRSCGeometry l w h t
   \<and> boxGeometry ''drawer'' l w h t = createRSCGeometry l w h t
   \<and> boxGeometry ''folding'' l w h t = createRSCGeometry l w h t
   \<and> boxGeometry ''gableTop'' l w h t = createRSCGeometry l w h t
   \<and> boxGeometry ''pillow'' l w h t = createRSCGeometry l w h t
   \<and> boxGeometry ''tuckEnd'' l w h t = createRSCGeometry l w h t
   \<and> boxGeometry ''hingedLid'' l w h t = createRSCGeometry l w h t
   \<and> boxGeometry ''rsc'' l w h t = createRSCGeometry l w h t
   \<and> boxGeometry ''autoBottom'' l w h t \<noteq> createRSCGeometry l w h t
   \<and> boxGeometry ''display'' l w h t \<noteq> createRSCGeometry l w h t
   \<and> (boxGeometry style l w h t \<noteq> createRSCGeometry l w h t
        \<longrightarrow> style = ''autoBottom'' \<or> style = ''display'')"
proof -
  have ab: "boxGeometry ''autoBottom'' l w h t \<noteq> createRSCGeometry l w h t"
  proof
    assume "boxGeometry ''autoBottom'' l w h t = createRSCGeometry l w h t"
    then have "length (createAutoBottomGeometry l w h t) = length (createRSCGeometry l w h t)"
      by (simp add: boxGeometry_own_styles)
    then show False
      by (simp add: length_createAutoBottomGeometry length_createRSCGeometry)
  qed
  have di: "boxGeometry ''display'' l w h t \<noteq> createRSCGeometry l w h t"
  proof
    assume "boxGeometry ''display'' l w h t = createRSCGeometry l w h t"
    then have "length (createDisplayBoxGeometry l w h t) = length (createRSCGeometry l w h t)"
      by (simp add: boxGeometry_own_styles)
    then show False
      by (simp add: length_createDisplayBoxGeometry length_createRSCGeometry)
  qed
  have other: "boxGeometry style l w h t \<noteq> createRSCGeometry l w h t
        \<longrightarrow> style = ''autoBottom'' \<or> style = ''display''"
    by (simp add: boxGeometry_def createDrawerBoxGeometry_def createFoldingBoxGeometry_def
      createGableTopGeometry_def createPillowBoxGeometry_def createTuckEndGeometry_def
      createHingedLidGeometry_def)
  show ?thesis
    using ab di other
    by (simp add: boxGeometry_stub_styles boxGeometry_own_styles
      createDrawerBoxGeometry_def createFoldingBoxGeometry_def
      createGableTopGeometry_def createPillowBoxGeometry_def createTuckEndGeometry_def
      createHingedLidGeometry_def)
qed

theorem C1_stub_styles_are_rsc_witness:
  "boxGeometry ''autoBottom'' 30 20 15 (3 / 10) \<noteq> createRSCGeometry 30 20 15 (3 / 10)
   \<and> boxGeometry ''pillow'' 30 20 15 (3 / 10) = createRSCGeometry 30 20 15 (3 / 10)
   \<and> length (boxGeometry ''pillow'' 30 20 15 (3 / 10)) = 14"
  using C1_stub_styles_are_rsc [of 30 20 15 "3 / 10" "''autoBottom''"]
  by (simp add: length_createRSCGeometry)

section \<open>JavaScript numbers\<close>

text \<open>
  A Number is an IEEE 754 binary64 value: a finite double, given by the rational it
  stands for, one of the two infinities, or \<open>NaN\<close>. The two zeros are one value (they
  compare equal, and none of the functions below divides by a computed zero).
\<close>

datatype jsnum = Num real | PInf | NInf | NaN

text \<open>
  Rounding to the nearest double, ties to the even significand. For \<open>a > 0\<close>,
  \<open>ilog2 a\<close> is the exponent \<open>e\<close> with \<open>2^e \<le> a < 2^(e+1)\<close>; doubles with that exponent are
  the multiples of \<open>2^(e-52)\<close>, and below \<open>2^(-1022)\<close> (the subnormal range) the multiples
  of \<open>2^(-1074)\<close>. A result of \<open>2^1024\<close> or more is an infinity.
\<close>

definition ilog2 :: "real \<Rightarrow> int" where
  "ilog2 a = (if 1 \<le> a then bitlen \<lfloor>a\<rfloor> - 1 else - bitlen (\<lceil>1 / a\<rceil> - 1))"

definition roundTiesToEven :: "real \<Rightarrow> int" where
  "roundTiesToEven y =
     (let f = \<lfloor>y\<rfloor>; d = y - of_int f
      in if d < 1 / 2 then f else if 1 / 2 < d then f + 1 else if even f then f else f + 1)"

definition binary64 :: "real \<Rightarrow> jsnum" where
  "binary64 x =
     (if x = 0 then Num 0
      else let a = \<bar>x\<bar>;
               e = max (ilog2 a) (- 1022);
               ulp = 2 powi (e - 52);
               m = roundTiesToEven (a / ulp)
           in if 1023 < e \<or> (e = 1023 \<and> 2 ^ 53 \<le> m) then (if x < 0 then NInf else PInf)
              else Num ((if x < 0 then - 1 else 1) * of_int m * ulp))"

text \<open>
  The arithmetic operators: the exact result, rounded; the special values as IEEE 754
  has them. A numeric literal of the source such as \<open>0.18\<close> is the double nearest to it,
  \<open>binary64 (18 / 100)\<close>; an integer literal is itself.
\<close>

definition sign_of :: "jsnum \<Rightarrow> int" where
  "sign_of a = (case a of Num x \<Rightarrow> (if 0 < x then 1 else if x < 0 then - 1 else 0)
                | PInf \<Rightarrow> 1 | NInf \<Rightarrow> - 1 | NaN \<Rightarrow> 0)"

definition signed_inf :: "int \<Rightarrow> jsnum" where
  "signed_inf s = (if s = 0 then NaN else if 0 < s then PInf else NInf)"

fun js_add :: "jsnum \<Rightarrow> jsnum \<Rightarrow> jsnum" where
  "js_add (Num x) (Num y) = binary64 (x + y)"
| "js_add NaN b = NaN"
| "js_add a NaN = NaN"
| "js_add PInf NInf = NaN"
| "js_add NInf PInf = NaN"
| "js_add PInf b = PInf"
| "js_add NInf b = NInf"
| "js_add a PInf = PInf"
| "js_add a NInf = NInf"

fun js_neg :: "jsnum \<Rightarrow> jsnum" where
  "js_neg (Num x) = Num (- x)"
| "js_neg PInf = NInf"
| "js_neg NInf = PInf"
| "js_neg NaN = NaN"

definition js_sub :: "jsnum \<Rightarrow> jsnum \<Rightarrow> jsnum" where
  "js_sub a b = js_add a (js_neg b)"

fun js_mul :: "jsnum \<Rightarrow> jsnum \<Rightarrow> jsnum" where
  "js_mul (Num x) (Num y) = binary64 (x * y)"
| "js_mul NaN b = NaN"
| "js_mul a NaN = NaN"
| "js_mul a b = signed_inf (sign_of a * sign_of b)"

fun js_div :: "jsnum \<Rightarrow> jsnum \<Rightarrow> jsnum" where
  "js_div (Num x) (Num y) = (if y = 0 then signed_inf (sign_of (Num x)) else binary64 (x / y))"
| "js_div NaN b = NaN"
| "js_div a NaN = NaN"
| "js_div (Num x) b = Num 0"
| "js_div a (Num y) = signed_inf (sign_of a * (if y < 0 then - 1 else 1))"
| "js_div a b = NaN"

text \<open>The comparisons; every comparison with \<open>NaN\<close> is false.\<close>

fun js_lt :: "jsnum \<Rightarrow> jsnum \<Rightarrow> bool" where
  "js_lt (Num x) (Num y) = (x < y)"
| "js_lt NaN b = False"
| "js_lt a NaN = False"
| "js_lt a NInf = False"
| "js_lt PInf b = False"
| "js_lt a b = True"

definition js_gt :: "jsnum \<Rightarrow> jsnum \<Rightarrow> bool" where
  "js_gt a b = js_lt b a"

definition js_le :: "jsnum \<Rightarrow> jsnum \<Rightarrow> bool" where
  "js_le a b = (a \<noteq> NaN \<and> b \<noteq> NaN \<and> \<not> js_lt b a)"

definition js_ge :: "jsnum \<Rightarrow> jsnum \<Rightarrow> bool" where
  "js_ge a b = js_le b a"

text \<open>
  \<open>Math.floor\<close>, \<open>Math.round\<close> (the nearest integer, a tie going up) and \<open>Math.PI\<close>. The
  floor and the rounding of a double are doubles, so nothing is rounded again.
\<close>

fun Math_floor :: "jsnum \<Rightarrow> jsnum" where
  "Math_floor (Num x) = Num (of_int \<lfloor>x\<rfloor>)"
| "Math_floor v = v"

fun Math_round :: "jsnum \<Rightarrow> jsnum" where
  "Math_round (Num x) = Num (of_int \<lfloor>x + 1 / 2\<rfloor>)"
| "Math_round v = v"

definition Math_PI :: jsnum where
  "Math_PI = Num (884279719003555 / 281474976710656)"

lemma js_gt_Num [simp]: "js_gt (Num x) (Num y) = (y < x)"
  by (simp add: js_gt_def)

lemma js_le_Num [simp]: "js_le (Num x) (Num y) = (x \<le> y)"
  by (auto simp add: js_le_def)

lemma js_ge_Num [simp]: "js_ge (Num x) (Num y) = (y \<le> x)"
  by (simp add: js_ge_def)

lemma js_gt_NaN [simp]: "js_gt NaN b = False" "js_gt a NaN = False"
  by (cases b; simp add: js_gt_def) (cases a; simp add: js_gt_def)

lemma js_sub_Num [simp]: "js_sub (Num x) (Num y) = binary64 (x - y)"
  by (simp add: js_sub_def)

subsection \<open>Which reals are doubles\<close>

lemma bitlen_ge_one: "0 < n \<Longrightarrow> 1 \<le> bitlen n"
  using bitlen_bounds [of n] by (cases "bitlen n \<le> 0") auto

lemma ilog2_bounds:
  assumes "0 < a"
  shows "2 powi (ilog2 a) \<le> a" and "a < 2 powi (ilog2 a + 1)"
proof -
  have "2 powi (ilog2 a) \<le> a \<and> a < 2 powi (ilog2 a + 1)"
  proof (cases "1 \<le> a")
    case True
    define n where "n = \<lfloor>a\<rfloor>"
    have n: "1 \<le> n" "of_int n \<le> a" "a < of_int n + 1"
      using True unfolding n_def by linarith+
    from n(1) have pos: "0 < n" by simp
    from bitlen_bounds [OF pos]
    have b: "2 ^ nat (bitlen n - 1) \<le> n" "n < 2 ^ nat (bitlen n)" by simp_all
    have bl: "1 \<le> bitlen n" using pos by (rule bitlen_ge_one)
    have il: "ilog2 a = bitlen n - 1" using True by (simp add: ilog2_def n_def)
    have "(2::real) powi (bitlen n - 1) = of_int (2 ^ nat (bitlen n - 1))"
      using bl by (simp add: power_int_def)
    also have "\<dots> \<le> of_int n" using b(1) by (simp only: of_int_le_iff)
    finally have lo: "2 powi (bitlen n - 1) \<le> a" using n(2) by linarith
    have "n + 1 \<le> 2 ^ nat (bitlen n)" using b(2) by simp
    then have "(of_int (n + 1) :: real) \<le> of_int (2 ^ nat (bitlen n))" by (simp only: of_int_le_iff)
    also have "\<dots> = 2 powi (bitlen n)" using bl by (simp add: power_int_def)
    finally have hi: "a < 2 powi (bitlen n)" using n(3) by simp
    show ?thesis using lo hi il by simp
  next
    case False
    define y where "y = 1 / a"
    define n where "n = \<lceil>y\<rceil> - 1"
    have y1: "1 < y" using False assms by (simp add: y_def)
    have n: "1 \<le> n" "of_int n < y" "y \<le> of_int n + 1"
      using y1 unfolding n_def by linarith+
    from n(1) have pos: "0 < n" by simp
    from bitlen_bounds [OF pos]
    have b: "2 ^ nat (bitlen n - 1) \<le> n" "n < 2 ^ nat (bitlen n)" by simp_all
    have bl: "1 \<le> bitlen n" using pos by (rule bitlen_ge_one)
    have il: "ilog2 a = - bitlen n" using False by (simp add: ilog2_def n_def y_def)
    have a: "a = 1 / y" using assms by (simp add: y_def)
    have "n + 1 \<le> 2 ^ nat (bitlen n)" using b(2) by simp
    then have "(of_int (n + 1) :: real) \<le> of_int (2 ^ nat (bitlen n))" by (simp only: of_int_le_iff)
    also have "\<dots> = 2 ^ nat (bitlen n)" by simp
    finally have yhi: "y \<le> 2 ^ nat (bitlen n)" using n(3) by simp
    have "(2::real) powi (- bitlen n) = 1 / 2 ^ nat (bitlen n)"
      using bl by (simp add: power_int_def field_simps)
    also have "\<dots> \<le> 1 / y" using yhi y1 by (simp add: frac_le)
    finally have lo: "2 powi (- bitlen n) \<le> a" using a by simp
    have e1: "(of_int (2 ^ nat (bitlen n - 1)) :: real) \<le> of_int n"
      using b(1) by (simp only: of_int_le_iff)
    have e2: "(of_int (2 ^ nat (bitlen n - 1)) :: real) = 2 ^ nat (bitlen n - 1)" by simp
    have ylo: "(2::real) ^ nat (bitlen n - 1) < y" using e1 e2 n(2) by linarith
    have "1 / y < 1 / 2 ^ nat (bitlen n - 1)" using ylo by (intro frac_less2) simp_all
    then have "a < 1 / 2 ^ nat (bitlen n - 1)" using a by simp
    also have "\<dots> = 2 powi (- bitlen n + 1)"
      using bl by (simp add: power_int_def field_simps nat_diff_distrib)
    finally have hi: "a < 2 powi (- bitlen n + 1)" .
    show ?thesis using lo hi il by simp
  qed
  then show "2 powi (ilog2 a) \<le> a" and "a < 2 powi (ilog2 a + 1)" by simp_all
qed

lemma ilog2_unique:
  assumes "2 powi e \<le> a" "a < 2 powi (e + 1)"
  shows "ilog2 a = e"
proof -
  have pos: "0 < a" using assms(1) zero_less_power_int [of "2::real" e] by linarith
  note b = ilog2_bounds [OF pos]
  have "\<not> e < ilog2 a"
  proof
    assume "e < ilog2 a"
    then have "e + 1 \<le> ilog2 a" by simp
    then have "(2::real) powi (e + 1) \<le> 2 powi (ilog2 a)" by (intro power_int_increasing) simp_all
    with b(1) assms(2) show False by linarith
  qed
  moreover have "\<not> ilog2 a < e"
  proof
    assume "ilog2 a < e"
    then have "ilog2 a + 1 \<le> e" by simp
    then have "(2::real) powi (ilog2 a + 1) \<le> 2 powi e" by (intro power_int_increasing) simp_all
    with b(2) assms(1) show False by linarith
  qed
  ultimately show ?thesis by linarith
qed

text \<open>
  Rounding in the normal range, given the exponent: the significand is the magnitude
  over \<open>2^(e-52)\<close>, rounded to an integer.
\<close>

lemma binary64_normal:
  assumes "2 powi e \<le> \<bar>x\<bar>" and "\<bar>x\<bar> < 2 powi (e + 1)" and "- 1022 \<le> e" and "e < 1023"
  shows "binary64 x =
           Num ((if x < 0 then - 1 else 1)
                  * of_int (roundTiesToEven (\<bar>x\<bar> / 2 powi (e - 52))) * 2 powi (e - 52))"
proof -
  have "ilog2 \<bar>x\<bar> = e" using assms(1,2) by (rule ilog2_unique)
  moreover have "x \<noteq> 0"
  proof
    assume "x = 0"
    with assms(1) have "(2::real) powi e \<le> 0" by simp
    moreover have "(0::real) < 2 powi e" by simp
    ultimately show False by linarith
  qed
  ultimately show ?thesis using assms(3,4) by (simp add: binary64_def Let_def)
qed

lemma roundTiesToEven_int [simp]: "roundTiesToEven (of_int j) = j"
  by (simp add: roundTiesToEven_def)

lemma roundTiesToEven_less: "t < of_int N \<Longrightarrow> roundTiesToEven t \<le> N"
proof -
  assume "t < of_int N"
  then have "\<lfloor>t\<rfloor> + 1 \<le> N" by linarith
  then show ?thesis by (simp add: roundTiesToEven_def Let_def)
qed

lemma roundTiesToEven_nonneg: "0 \<le> t \<Longrightarrow> 0 \<le> roundTiesToEven t"
proof -
  assume "0 \<le> t"
  then have "0 \<le> \<lfloor>t\<rfloor>" by simp
  then show ?thesis by (simp add: roundTiesToEven_def Let_def)
qed

lemma powi_less_exp: "(2::real) powi m < 2 powi n \<Longrightarrow> m < n"
proof (rule ccontr)
  assume a: "(2::real) powi m < 2 powi n" and "\<not> m < n"
  then have "n \<le> m" by simp
  then have "(2::real) powi n \<le> 2 powi m" by (intro power_int_increasing) simp_all
  with a show False by simp
qed

lemma powi_split: "(2::real) powi (e + 1) = 2 ^ 53 * 2 powi (e - 52)"
proof -
  have "(2::real) powi (53 + (e - 52)) = 2 powi 53 * 2 powi (e - 52)"
    by (rule power_int_add) simp
  moreover have "53 + (e - 52) = e + 1" by simp
  ultimately have "(2::real) powi (e + 1) = 2 powi 53 * 2 powi (e - 52)" by (simp only:)
  then show ?thesis by simp
qed

lemma below_next_exponent:
  assumes "0 < a"
  shows "a < 2 ^ 53 * 2 powi (max (ilog2 a) (- 1022) - 52)"
proof -
  have "ilog2 a + 1 \<le> max (ilog2 a) (- 1022) + 1" by simp
  then have "(2::real) powi (ilog2 a + 1) \<le> 2 powi (max (ilog2 a) (- 1022) + 1)"
    by (intro power_int_increasing) simp_all
  with ilog2_bounds(2) [OF assms] have "a < 2 powi (max (ilog2 a) (- 1022) + 1)" by linarith
  then show ?thesis by (simp only: powi_split)
qed

text \<open>
  A significand of fewer than 54 bits at an exponent of the format is a double: rounding
  leaves it as it is.
\<close>

lemma binary64_exact:
  assumes M: "\<bar>M\<bar> < 2 ^ 53" and k: "- 1074 \<le> k" "k \<le> 971"
  shows "binary64 (of_int M * 2 powi k) = Num (of_int M * 2 powi k)"
proof (cases "M = 0")
  case True
  then show ?thesis by (simp add: binary64_def)
next
  case False
  define x :: real where "x = of_int M * 2 powi k"
  define a where "a = \<bar>x\<bar>"
  define e where "e = max (ilog2 a) (- 1022)"
  define j where "j = k - (e - 52)"
  have p: "(0::real) < 2 powi k" by simp
  have a: "a = of_int \<bar>M\<bar> * 2 powi k" by (simp add: a_def x_def abs_mult)
  have apos: "0 < a" using False p by (simp add: a)
  have x0: "x \<noteq> 0" using apos by (simp add: a_def)
  note b = ilog2_bounds [OF apos]
  have "real_of_int \<bar>M\<bar> < of_int (2 ^ 53)" using M by (simp only: of_int_less_iff)
  then have "a < 2 ^ 53 * 2 powi k" using p by (simp add: a)
  also have "\<dots> = 2 powi (53 + k)" by (simp add: power_int_add)
  finally have "2 powi (ilog2 a) < (2::real) powi (53 + k)" using b(1) by linarith
  then have "ilog2 a < 53 + k" by (rule powi_less_exp)
  then have e_le: "e \<le> 52 + k" using k by (simp add: e_def)
  then have j0: "0 \<le> j" by (simp add: j_def)
  have e_hi: "e \<le> 1023" using e_le k by simp
  have "k = j + (e - 52)" by (simp add: j_def)
  then have "(2::real) powi k = 2 powi j * 2 powi (e - 52)" by (simp add: power_int_add)
  then have split: "a = of_int (\<bar>M\<bar> * 2 ^ nat j) * 2 powi (e - 52)"
    using j0 by (simp add: a power_int_def)
  have q: "a / 2 powi (e - 52) = of_int (\<bar>M\<bar> * 2 ^ nat j)"
    by (subst split) simp
  have m: "roundTiesToEven (a / 2 powi (e - 52)) = \<bar>M\<bar> * 2 ^ nat j"
    by (simp only: q roundTiesToEven_int)
  have "a < 2 ^ 53 * 2 powi (e - 52)"
    unfolding e_def using apos by (rule below_next_exponent)
  then have "of_int (\<bar>M\<bar> * 2 ^ nat j) * 2 powi (e - 52) < 2 ^ 53 * (2::real) powi (e - 52)"
    by (simp only: split [symmetric])
  then have "real_of_int (\<bar>M\<bar> * 2 ^ nat j) < 2 ^ 53" by simp
  then have "real_of_int (\<bar>M\<bar> * 2 ^ nat j) < of_int (2 ^ 53)" by simp
  then have small: "\<bar>M\<bar> * 2 ^ nat j < 2 ^ 53" by (simp only: of_int_less_iff)
  have sgn: "(if x < 0 then - 1 else 1) * a = x" by (simp add: a_def)
  have "binary64 x = Num ((if x < 0 then - 1 else 1) * of_int (\<bar>M\<bar> * 2 ^ nat j) * 2 powi (e - 52))"
    using x0 e_hi small
    by (simp add: binary64_def Let_def a_def [symmetric] e_def [symmetric] m del: of_int_mult of_int_power)
  also have "\<dots> = Num ((if x < 0 then - 1 else 1) * a)"
    by (simp only: split mult.assoc)
  finally show ?thesis by (simp only: sgn) (simp add: x_def)
qed

text \<open>Every integer of magnitude up to \<open>2^53\<close> is a double.\<close>

lemma binary64_int:
  assumes "\<bar>j\<bar> \<le> 2 ^ 53"
  shows "binary64 (of_int j) = Num (of_int j)"
proof (cases "\<bar>j\<bar> < 2 ^ 53")
  case True
  from binary64_exact [OF True, of 0] show ?thesis by simp
next
  case False
  with assms have "\<bar>j\<bar> = 2 ^ 53" by simp
  then consider "j = 2 ^ 52 * 2" | "j = - (2 ^ 52) * 2" by (cases "0 \<le> j") simp_all
  then show ?thesis
  proof cases
    case 1
    from binary64_exact [of "2 ^ 52" 1] show ?thesis by (simp add: 1)
  next
    case 2
    from binary64_exact [of "- (2 ^ 52)" 1] show ?thesis by (simp add: 2)
  qed
qed

text \<open>The result of rounding is a double: rounding it again changes nothing.\<close>

lemma binary64_idem:
  assumes "binary64 x = Num y"
  shows "binary64 y = Num y"
proof (cases "x = 0")
  case True
  with assms have "y = 0" by (simp add: binary64_def)
  then show ?thesis by (simp add: binary64_def)
next
  case False
  define a where "a = \<bar>x\<bar>"
  define e where "e = max (ilog2 a) (- 1022)"
  define m where "m = roundTiesToEven (a / 2 powi (e - 52))"
  define s :: int where "s = (if x < 0 then - 1 else 1)"
  have apos: "0 < a" using False by (simp add: a_def)
  from assms False have fin: "\<not> (1023 < e \<or> (e = 1023 \<and> 2 ^ 53 \<le> m))"
    by (auto simp add: binary64_def Let_def a_def [symmetric] e_def [symmetric] m_def [symmetric]
        split: if_splits)
  from assms False fin have y: "y = of_int s * of_int m * 2 powi (e - 52)"
    by (auto simp add: binary64_def Let_def a_def [symmetric] e_def [symmetric] m_def [symmetric] s_def
        split: if_splits)
  have e_lo: "- 1022 \<le> e" by (simp add: e_def)
  have e_hi: "e \<le> 1023" using fin by simp
  have m0: "0 \<le> m" unfolding m_def using apos by (intro roundTiesToEven_nonneg) simp
  have "a < 2 ^ 53 * 2 powi (e - 52)"
    unfolding e_def using apos by (rule below_next_exponent)
  then have "a / 2 powi (e - 52) < 2 ^ 53" by (simp add: field_simps)
  then have "a / 2 powi (e - 52) < of_int (2 ^ 53)" by simp
  then have m53: "m \<le> 2 ^ 53" unfolding m_def by (rule roundTiesToEven_less)
  have sabs: "\<bar>s\<bar> = 1" by (simp add: s_def)
  show ?thesis
  proof (cases "m < 2 ^ 53")
    case True
    have "\<bar>s * m\<bar> < 2 ^ 53" using True m0 sabs by (simp add: abs_mult)
    from binary64_exact [OF this, of "e - 52"] e_lo e_hi show ?thesis by (simp add: y)
  next
    case False
    with m53 have m: "m = 2 ^ 53" by simp
    with fin e_hi have e2: "e - 51 \<le> 971" by simp
    have "\<bar>s * 2 ^ 52\<bar> < (2::int) ^ 53" using sabs by (simp add: abs_mult)
    from binary64_exact [OF this, of "e - 51"] e_lo e2
    have "binary64 (of_int (s * 2 ^ 52) * 2 powi (e - 51)) = Num (of_int (s * 2 ^ 52) * 2 powi (e - 51))"
      by simp
    moreover have "of_int (s * 2 ^ 52) * 2 powi (e - 51) = y"
    proof -
      have "(2::real) powi (1 + (e - 52)) = 2 powi 1 * 2 powi (e - 52)"
        by (rule power_int_add) simp
      moreover have "1 + (e - 52) = e - 51" by simp
      ultimately have "(2::real) powi (e - 51) = 2 powi 1 * 2 powi (e - 52)" by (simp only:)
      then have "(2::real) powi (e - 51) = 2 * 2 powi (e - 52)" by simp
      then show ?thesis by (simp add: y m)
    qed
    ultimately show ?thesis by simp
  qed
qed

lemma binary64_numeral:
  "numeral w \<le> (2::int) ^ 53 \<Longrightarrow> binary64 (numeral w) = Num (numeral w)"
  using binary64_int [of "numeral w"] by simp

lemma binary64_zero: "binary64 0 = Num 0"
  by (simp add: binary64_def)

lemma binary64_one: "binary64 1 = Num 1"
  using binary64_int [of 1] by simp

text \<open>Multiplying a computed sum by 1 gives the sum.\<close>

lemma js_mul_one_sum: "js_mul (js_add a b) (Num 1) = js_add a b"
proof (cases "js_add a b")
  case (Num y)
  then obtain x1 x2 where "a = Num x1" "b = Num x2"
    by (cases a; cases b) simp_all
  with Num have "binary64 (x1 + x2) = Num y" by simp
  then have "binary64 y = Num y" by (rule binary64_idem)
  with Num show ?thesis by simp
qed (simp_all add: sign_of_def signed_inf_def)

section \<open>Folding sequences, assembly instructions and folding animation\<close>

record box_style =
  style_name :: string
  description :: string
  foldingSequence :: "string list"
  complexity :: string

definition BOX_STYLES :: "(string \<times> box_style) list" where
  "BOX_STYLES =
   [ (''rsc'', \<lparr> style_name = ''Regular Slotted Container'',
        description = ''Standard shipping box with four flaps on top and bottom'',
        foldingSequence = [''bottom'', ''sides'', ''top''], complexity = ''simple'' \<rparr>),
     (''autoBottom'', \<lparr> style_name = ''Auto Bottom Box'',
        description = ''Self-locking bottom, convenient for packing'',
        foldingSequence = [''bottom-lock'', ''sides'', ''top''], complexity = ''medium'' \<rparr>),
     (''display'', \<lparr> style_name = ''Display Box'',
        description = ''Retail display box with advertisement panel'',
        foldingSequence = [''base'', ''display-panel'', ''sides''], complexity = ''medium'' \<rparr>),
     (''drawer'', \<lparr> style_name = ''Drawer Box'',
        description = ''Slide-out drawer style box'',
        foldingSequence = [''outer-sleeve'', ''inner-drawer''], complexity = ''complex'' \<rparr>),
     (''folding'', \<lparr> style_name = ''Folding Box'',
        description = ''One-piece folding box without glue'',
        foldingSequence = [''base-fold'', ''side-tabs'', ''lock-tabs''], complexity = ''medium'' \<rparr>),
     (''gableTop'', \<lparr> style_name = ''Gable Top Box'',
        description = ''Milk carton style with peaked top'',
        foldingSequence = [''base'', ''sides'', ''gable-fold''], complexity = ''complex'' \<rparr>),
     (''pillow'', \<lparr> style_name = ''Pillow Box'',
        description = ''Curved pillow-shaped packaging'',
        foldingSequence = [''curve-sides'', ''end-tucks''], complexity = ''simple'' \<rparr>),
     (''tuckEnd'', \<lparr> style_name = ''Tuck End Box'',
        description = ''Boxes with tuck-in flaps on ends'',
        foldingSequence = [''bottom'', ''sides'', ''tuck-ends''], complexity = ''simple'' \<rparr>),
     (''hingedLid'', \<lparr> style_name = ''Hinged Lid Box'',
        description = ''Premium box with attached hinged lid'',
        foldingSequence = [''base'', ''hinge'', ''lid''], complexity = ''complex'' \<rparr>) ]"

text \<open>
  \<open>String.prototype.toUpperCase\<close> on the ASCII letters of the folding steps,
  \<open>replace('-', ' ')\<close> (a string pattern replaces the first occurrence only) and
  \<open>String.prototype.includes\<close>.
\<close>

definition toUpperCase_char :: "char \<Rightarrow> char" where
  "toUpperCase_char c =
     (case map_of (zip ''abcdefghijklmnopqrstuvwxyz'' ''ABCDEFGHIJKLMNOPQRSTUVWXYZ'') c of
        Some u \<Rightarrow> u | None \<Rightarrow> c)"

fun replaceFirst :: "char \<Rightarrow> char \<Rightarrow> string \<Rightarrow> string" where
  "replaceFirst a b [] = []"
| "replaceFirst a b (c # cs) = (if c = a then b # cs else c # replaceFirst a b cs)"

fun includes_str :: "string \<Rightarrow> string \<Rightarrow> bool" where
  "includes_str [] step = (step = [])"
| "includes_str (c # cs) step = (prefix step (c # cs) \<or> includes_str cs step)"

lemma includes_iff: "includes_str s t \<longleftrightarrow> (\<exists>ps ss. s = ps @ t @ ss)"
proof (induction s)
  case Nil
  then show ?case by auto
next
  case (Cons c cs)
  show ?case
  proof
    assume "includes_str (c # cs) t"
    then consider "prefix t (c # cs)" | "includes_str cs t" by auto
    then show "\<exists>ps ss. c # cs = ps @ t @ ss"
    proof cases
      case 1
      then obtain ss where "c # cs = t @ ss" by (auto simp: prefix_def)
      then have "c # cs = [] @ t @ ss" by simp
      then show ?thesis by blast
    next
      case 2
      with Cons obtain ps ss where "cs = ps @ t @ ss" by blast
      then have "c # cs = (c # ps) @ t @ ss" by simp
      then show ?thesis by blast
    qed
  next
    assume "\<exists>ps ss. c # cs = ps @ t @ ss"
    then obtain ps ss where e: "c # cs = ps @ t @ ss" by blast
    show "includes_str (c # cs) t"
    proof (cases ps)
      case Nil
      with e have "prefix t (c # cs)" by (simp add: prefix_def)
      then show ?thesis by simp
    next
      case (Cons p ps')
      with e have "cs = ps' @ t @ ss" by simp
      with Cons.IH have "includes_str cs t" by blast
      then show ?thesis by simp
    qed
  qed
qed


text \<open>\<open>BOX_STYLES[style]\<close>: \<open>None\<close> is \<open>undefined\<close>.\<close>

definition lookup_style :: "string \<Rightarrow> box_style option" where
  "lookup_style style = map_of BOX_STYLES style"

text \<open>
  The \<open>step\<close> prop that \<open>Enhanced3DBox\<close> passes to the overlay,
  \<open>Math.floor(animationProgress * BOX_STYLES[style].foldingSequence.length)\<close>; reading
  \<open>foldingSequence\<close> of \<open>undefined\<close> throws, which is \<open>None\<close>.
\<close>

definition overlayStep :: "string \<Rightarrow> jsnum \<Rightarrow> jsnum option" where
  "overlayStep style animationProgress =
     (case lookup_style style of
        None \<Rightarrow> None
      | Some s \<Rightarrow>
          Some (Math_floor (js_mul animationProgress (Num (real (length (foldingSequence s)))))))"

text \<open>
  \<open>xs[step]\<close> for a number \<open>step\<close>: the element at an integer index in range, and
  \<open>undefined\<close> (\<open>None\<close>) for every other number.
\<close>

definition element_at :: "'a list \<Rightarrow> jsnum \<Rightarrow> 'a option" where
  "element_at xs step =
     (case step of
        Num x \<Rightarrow> (if x = of_int \<lfloor>x\<rfloor> \<and> 0 \<le> x \<and> nat \<lfloor>x\<rfloor> < length xs
                   then Some (xs ! nat \<lfloor>x\<rfloor>) else None)
      | _ \<Rightarrow> None)"

text \<open>
  \<open>AssemblyInstructions\<close>: \<open>instructions[step] || 'Complete'\<close>; the overlay renders
  \<open>Step {step + 1}\<close> and the instruction with its first hyphen replaced by a space, in
  upper case.
\<close>

definition currentInstruction :: "string \<Rightarrow> jsnum \<Rightarrow> string" where
  "currentInstruction style step =
     (let instructions = (case lookup_style style of None \<Rightarrow> [] | Some s \<Rightarrow> foldingSequence s)
      in case element_at instructions step of
           Some entry \<Rightarrow> (if entry \<noteq> [] then entry else ''Complete'')
         | None \<Rightarrow> ''Complete'')"

record overlay =
  stepNumber :: jsnum
  instruction :: string

definition AssemblyInstructions :: "string \<Rightarrow> jsnum \<Rightarrow> overlay" where
  "AssemblyInstructions style step =
     \<lparr> stepNumber = js_add step (Num 1),
       instruction = map toUpperCase_char
          (replaceFirst CHR ''-'' CHR '' '' (currentInstruction style step)) \<rparr>"

text \<open>
  \<open>animateFolding(group, style, progress)\<close>. The group is the list of its children, each
  with its \<open>userData.name\<close> (\<open>None\<close> when undefined). The result is the list of the
  tweens put on the timeline, \<open>timeline.to(part.rotation, {duration, x, ease}, position)\<close>,
  the part given by its index among the children; \<open>None\<close> is the TypeError of a style that
  is not in the table.
\<close>

record child =
  userData_name :: "string option"

record tween =
  target :: nat
  duration :: jsnum
  rotation_x :: jsnum
  ease :: string
  startAt :: jsnum

definition named_for :: "string \<Rightarrow> child \<Rightarrow> bool" where
  "named_for step c =
     (case userData_name c of None \<Rightarrow> False | Some n \<Rightarrow> n \<noteq> [] \<and> includes_str n step)"

definition stepProgress :: "jsnum \<Rightarrow> nat \<Rightarrow> nat \<Rightarrow> jsnum" where
  \<comment> \<open>\<open>(progress * foldingSequence.length) - index\<close>\<close>
  "stepProgress progress n index = js_sub (js_mul progress (Num (real n))) (Num (real index))"

definition stepTweens :: "child list \<Rightarrow> jsnum \<Rightarrow> nat \<Rightarrow> nat \<times> string \<Rightarrow> tween list" where
  "stepTweens children progress n = (\<lambda>(index, step).
     (let sp = stepProgress progress n index in
      if js_gt sp (Num 0) \<and> js_le sp (Num 1)
      then map (\<lambda>(j, c). \<lparr> target = j, duration = Num (1 / 2),
                            rotation_x = js_div (js_mul sp Math_PI) (Num 2),
                            ease = ''power2.inOut'',
                            startAt = js_mul (Num (real index)) (binary64 (3 / 10)) \<rparr>)
             (filter (\<lambda>(j, c). named_for step c) (enumerate 0 children))
      else []))"

definition animateFolding :: "child list \<Rightarrow> string \<Rightarrow> jsnum \<Rightarrow> tween list option" where
  "animateFolding children style progress =
     (case lookup_style style of
        None \<Rightarrow> None
      | Some s \<Rightarrow>
          Some (concat (map (stepTweens children progress (length (foldingSequence s)))
                          (enumerate 0 (foldingSequence s)))))"

lemma styles_nonempty:
  "list_all (\<lambda>(k, s). foldingSequence s \<noteq> [] \<and> length (foldingSequence s) \<le> 3
                \<and> list_all (\<lambda>e. e \<noteq> []) (foldingSequence s)) BOX_STYLES"
  by (simp add: BOX_STYLES_def)

lemma lookup_style_nonempty:
  assumes "lookup_style style = Some s"
  shows "foldingSequence s \<noteq> []" and "[] \<notin> set (foldingSequence s)"
    and "length (foldingSequence s) \<le> 3"
proof -
  from assms have "(style, s) \<in> set BOX_STYLES"
    by (simp add: lookup_style_def map_of_SomeD)
  with styles_nonempty
  have "foldingSequence s \<noteq> [] \<and> length (foldingSequence s) \<le> 3
          \<and> list_all (\<lambda>e. e \<noteq> []) (foldingSequence s)"
    by (auto simp: list_all_iff)
  then show "foldingSequence s \<noteq> []" and "[] \<notin> set (foldingSequence s)"
    and "length (foldingSequence s) \<le> 3"
    by (auto simp: list_all_iff)
qed

lemma element_at_in_range:
  "0 \<le> k \<Longrightarrow> nat k < length xs \<Longrightarrow> element_at xs (Num (of_int k)) = Some (xs ! nat k)"
  by (simp add: element_at_def)

lemma element_at_elsewhere:
  assumes "\<not> (\<exists>k. step = Num (of_int k) \<and> 0 \<le> k \<and> nat k < length xs)"
  shows "element_at xs step = None"
proof (cases step)
  case (Num x)
  show ?thesis
  proof (rule ccontr)
    assume "element_at xs step \<noteq> None"
    then have "x = of_int \<lfloor>x\<rfloor>" "0 \<le> x" "nat \<lfloor>x\<rfloor> < length xs"
      by (simp_all add: element_at_def Num split: if_splits)
    then have "step = Num (of_int \<lfloor>x\<rfloor>) \<and> 0 \<le> \<lfloor>x\<rfloor> \<and> nat \<lfloor>x\<rfloor> < length xs"
      using Num by simp
    with assms show False by blast
  qed
qed (simp_all add: element_at_def)

lemma currentInstruction_in_range:
  assumes "lookup_style style = Some s" "0 \<le> k" "nat k < length (foldingSequence s)"
  shows "currentInstruction style (Num (of_int k)) = foldingSequence s ! nat k"
proof -
  have "foldingSequence s ! nat k \<in> set (foldingSequence s)" using assms by simp
  with lookup_style_nonempty(2) [OF assms(1)] have "foldingSequence s ! nat k \<noteq> []" by metis
  with assms show ?thesis
    by (simp add: currentInstruction_def element_at_in_range)
qed

lemma currentInstruction_elsewhere:
  assumes "lookup_style style = Some s"
    "\<not> (\<exists>k. step = Num (of_int k) \<and> 0 \<le> k \<and> nat k < length (foldingSequence s))"
  shows "currentInstruction style step = ''Complete''"
  using assms(1) element_at_elsewhere [OF assms(2)] by (simp add: currentInstruction_def)

lemma stepNumber_in_range:
  assumes "0 \<le> k" "k \<le> 3"
  shows "js_add (Num (of_int k)) (Num 1) = Num (of_int (k + 1))"
proof -
  have "\<bar>k + 1\<bar> \<le> 2 ^ 53" using assms by simp
  from binary64_int [OF this] show ?thesis by simp
qed

lemma stepTweens_mem:
  "tw \<in> set (stepTweens children p n (i, step)) \<longleftrightarrow>
     js_gt (stepProgress p n i) (Num 0) \<and> js_le (stepProgress p n i) (Num 1) \<and>
     (\<exists>j < length children. named_for step (children ! j) \<and>
        tw = \<lparr> target = j, duration = Num (1 / 2),
               rotation_x = js_div (js_mul (stepProgress p n i) Math_PI) (Num 2),
               ease = ''power2.inOut'', startAt = js_mul (Num (real i)) (binary64 (3 / 10)) \<rparr>)"
  by (auto simp: stepTweens_def Let_def in_set_enumerate_eq image_iff)

lemma animateFolding_mem:
  assumes "lookup_style style = Some s"
  shows "\<exists>tws. animateFolding children style p = Some tws \<and>
     (\<forall>tw. tw \<in> set tws \<longleftrightarrow>
       (\<exists>i < length (foldingSequence s). \<exists>j < length children.
          js_gt (stepProgress p (length (foldingSequence s)) i) (Num 0) \<and>
          js_le (stepProgress p (length (foldingSequence s)) i) (Num 1) \<and>
          named_for (foldingSequence s ! i) (children ! j) \<and>
          tw = \<lparr> target = j, duration = Num (1 / 2),
                 rotation_x = js_div (js_mul (stepProgress p (length (foldingSequence s)) i) Math_PI)
                                (Num 2),
                 ease = ''power2.inOut'', startAt = js_mul (Num (real i)) (binary64 (3 / 10)) \<rparr>))"
proof -
  let ?fs = "foldingSequence s"
  let ?tws = "concat (map (stepTweens children p (length ?fs)) (enumerate 0 ?fs))"
  have a: "animateFolding children style p = Some ?tws"
    using assms by (simp add: animateFolding_def)
  have "tw \<in> set ?tws \<longleftrightarrow>
       (\<exists>i < length ?fs. tw \<in> set (stepTweens children p (length ?fs) (i, ?fs ! i)))" for tw
    by (auto simp: in_set_enumerate_eq)
  then show ?thesis using a by (simp add: stepTweens_mem) blast
qed

text \<open>
  The meshes that \<open>Enhanced3DBox\<close> renders are given a geometry and a material and no
  \<open>userData\<close>; on a group whose children have no \<open>userData.name\<close> the animation puts no
  tween on the timeline.
\<close>

lemma animateFolding_unnamed:
  assumes "lookup_style style = Some s" "list_all (\<lambda>c. userData_name c = None) children"
  shows "animateFolding children style p = Some []"
proof -
  have "filter (\<lambda>(j, c). named_for step c) (enumerate 0 children) = []" for step
    using assms(2) by (auto simp add: filter_empty_conv named_for_def list_all_iff in_set_enumerate_eq)
  then have "stepTweens children p n x = []" for n x
    by (cases x) (simp add: stepTweens_def Let_def)
  with assms(1) show ?thesis by (simp add: animateFolding_def)
qed

text \<open>
  Claim C8, as stated: the overlay shows the step index \<open>\<lfloor>p * n\<rfloor>\<close>. The progress is a
  prop of the exported component and can be any number. At the double written
  \<open>0.3333333333333333\<close> and the style \<open>rsc\<close> (three steps), \<open>p * 3\<close> is below 1 and its
  floor is 0, the step \<open>bottom\<close>; the product that the code computes is rounded to the
  double 1, and the overlay is given step 1 and shows \<open>Step 2: SIDES\<close>.
\<close>

theorem C8_rounded_product_counterexample:
  "binary64 (3333333333333333 / 10 ^ 16) = Num (6004799503160661 / 2 ^ 54)
   \<and> \<lfloor>(6004799503160661 / 2 ^ 54) * real (length [''bottom'', ''sides'', ''top''])\<rfloor> = 0
   \<and> map_option foldingSequence (lookup_style ''rsc'') = Some [''bottom'', ''sides'', ''top'']
   \<and> overlayStep ''rsc'' (Num (6004799503160661 / 2 ^ 54)) = Some (Num 1)
   \<and> AssemblyInstructions ''rsc'' (Num 1) = \<lparr> stepNumber = Num 2, instruction = ''SIDES'' \<rparr>
   \<and> AssemblyInstructions ''rsc'' (Num 0) = \<lparr> stepNumber = Num 1, instruction = ''BOTTOM'' \<rparr>"
proof -
  have r: "binary64 (3333333333333333 / 10 ^ 16) = Num (6004799503160661 / 2 ^ 54)"
    using binary64_normal [of "- 2" "3333333333333333 / 10 ^ 16"]
    by (simp add: roundTiesToEven_def)
  have m: "js_mul (Num (6004799503160661 / 2 ^ 54)) (Num 3) = Num 1"
    using binary64_normal [of "- 1" "6004799503160661 / 2 ^ 54 * 3"]
    by (simp add: roundTiesToEven_def)
  have f: "\<lfloor>(6004799503160661 / 2 ^ 54) * real (length [''bottom'', ''sides'', ''top''])\<rfloor> = 0"
    by (simp add: floor_eq_iff)
  have l: "map_option foldingSequence (lookup_style ''rsc'') = Some [''bottom'', ''sides'', ''top'']"
    by (simp add: lookup_style_def BOX_STYLES_def)
  have o: "overlayStep ''rsc'' (Num (6004799503160661 / 2 ^ 54)) = Some (Num 1)"
    using m by (simp add: overlayStep_def lookup_style_def BOX_STYLES_def del: js_mul.simps)
  have a1: "AssemblyInstructions ''rsc'' (Num 1) = \<lparr> stepNumber = Num 2, instruction = ''SIDES'' \<rparr>"
    by (simp add: AssemblyInstructions_def currentInstruction_def element_at_def lookup_style_def
          BOX_STYLES_def toUpperCase_char_def binary64_numeral)
  have a0: "AssemblyInstructions ''rsc'' (Num 0) = \<lparr> stepNumber = Num 1, instruction = ''BOTTOM'' \<rparr>"
    by (simp add: AssemblyInstructions_def currentInstruction_def element_at_def lookup_style_def
          BOX_STYLES_def toUpperCase_char_def binary64_one)
  from r f l o a1 a0 show ?thesis by (simp only: simp_thms)
qed

text \<open>
  Claim C8, amended: the arithmetic is that of doubles. Every style of the \<open>BOX_STYLES\<close>
  table has a non-empty folding sequence. For a style of the table with a sequence of
  \<open>n\<close> steps, at animation progress \<open>p\<close>: the overlay is given the step index
  \<open>Math.floor(p * n)\<close>, the floor of the product rounded to a double; for an index \<open>k\<close> in
  range it shows \<open>Step k + 1\<close> and the entry of the sequence at \<open>k\<close>, in upper case with
  its first hyphen as a space, and for every other step value it shows \<open>COMPLETE\<close>; and
  the animation puts on the timeline exactly one tween for each step \<open>i\<close> with
  \<open>0 < p * n - i \<le> 1\<close>, product and difference rounded to doubles, and each child whose
  name includes that step, with the x rotation \<open>(p * n - i) * Math.PI / 2\<close>, again in
  double arithmetic, as its target.
\<close>

theorem C8_folding_sequence_overlay_tween:
  "list_all (\<lambda>(k, s). foldingSequence s \<noteq> []) BOX_STYLES
   \<and> (lookup_style style = Some s \<longrightarrow>
        foldingSequence s \<noteq> []
      \<and> overlayStep style p
          = Some (Math_floor (js_mul p (Num (real (length (foldingSequence s))))))
      \<and> (\<forall>x. p = Num x \<longrightarrow>
            overlayStep style p
              = Some (Math_floor (binary64 (x * real (length (foldingSequence s))))))
      \<and> (0 \<le> k \<and> nat k < length (foldingSequence s) \<longrightarrow>
            AssemblyInstructions style (Num (of_int k)) =
              \<lparr> stepNumber = Num (of_int (k + 1)),
                instruction = map toUpperCase_char
                   (replaceFirst CHR ''-'' CHR '' '' (foldingSequence s ! nat k)) \<rparr>)
      \<and> (\<not> (\<exists>k. step = Num (of_int k) \<and> 0 \<le> k \<and> nat k < length (foldingSequence s)) \<longrightarrow>
            instruction (AssemblyInstructions style step) = ''COMPLETE'')
      \<and> (\<exists>tws. animateFolding children style p = Some tws \<and>
           (\<forall>tw. tw \<in> set tws \<longleftrightarrow>
             (\<exists>i < length (foldingSequence s). \<exists>j < length children.
                js_gt (stepProgress p (length (foldingSequence s)) i) (Num 0) \<and>
                js_le (stepProgress p (length (foldingSequence s)) i) (Num 1) \<and>
                named_for (foldingSequence s ! i) (children ! j) \<and>
                tw = \<lparr> target = j, duration = Num (1 / 2),
                       rotation_x =
                         js_div (js_mul (stepProgress p (length (foldingSequence s)) i) Math_PI)
                           (Num 2),
                       ease = ''power2.inOut'',
                       startAt = js_mul (Num (real i)) (binary64 (3 / 10)) \<rparr>))))"
proof -
  have table: "list_all (\<lambda>(k, s). foldingSequence s \<noteq> []) BOX_STYLES"
    by (simp add: BOX_STYLES_def)
  have style: ?thesis if l: "lookup_style style = Some s"
  proof -
    have s1: "overlayStep style p
          = Some (Math_floor (js_mul p (Num (real (length (foldingSequence s))))))"
      using l by (simp add: overlayStep_def)
    have s2: "\<forall>x. p = Num x \<longrightarrow>
            overlayStep style p
              = Some (Math_floor (binary64 (x * real (length (foldingSequence s)))))"
      using l by (simp add: overlayStep_def)
    have s3: "0 \<le> k \<and> nat k < length (foldingSequence s) \<longrightarrow>
            AssemblyInstructions style (Num (of_int k)) =
              \<lparr> stepNumber = Num (of_int (k + 1)),
                instruction = map toUpperCase_char
                   (replaceFirst CHR ''-'' CHR '' '' (foldingSequence s ! nat k)) \<rparr>"
    proof
      assume r: "0 \<le> k \<and> nat k < length (foldingSequence s)"
      with lookup_style_nonempty(3) [OF l] have "k \<le> 3" by linarith
      with r have "js_add (Num (of_int k)) (Num 1) = Num (of_int (k + 1))"
        by (intro stepNumber_in_range) simp_all
      moreover have "currentInstruction style (Num (of_int k)) = foldingSequence s ! nat k"
        using r by (intro currentInstruction_in_range [OF l]) simp_all
      ultimately show "AssemblyInstructions style (Num (of_int k)) =
              \<lparr> stepNumber = Num (of_int (k + 1)),
                instruction = map toUpperCase_char
                   (replaceFirst CHR ''-'' CHR '' '' (foldingSequence s ! nat k)) \<rparr>"
        by (simp only: AssemblyInstructions_def)
    qed
    have s4: "\<not> (\<exists>k. step = Num (of_int k) \<and> 0 \<le> k \<and> nat k < length (foldingSequence s)) \<longrightarrow>
            instruction (AssemblyInstructions style step) = ''COMPLETE''"
    proof
      assume "\<not> (\<exists>k. step = Num (of_int k) \<and> 0 \<le> k \<and> nat k < length (foldingSequence s))"
      then have "currentInstruction style step = ''Complete''"
        by (rule currentInstruction_elsewhere [OF l])
      then show "instruction (AssemblyInstructions style step) = ''COMPLETE''"
        by (simp add: AssemblyInstructions_def toUpperCase_char_def)
    qed
    from table l lookup_style_nonempty(1) [OF l] s1 s2 s3 s4
      animateFolding_mem [OF l, of children p]
    show ?thesis by (simp only: simp_thms)
  qed
  show ?thesis
  proof (cases "lookup_style style = Some s")
    case True
    then show ?thesis by (rule style)
  next
    case False
    with table show ?thesis by simp
  qed
qed

theorem C8_folding_sequence_overlay_tween_witness:
  "lookup_style ''autoBottom'' \<noteq> None
   \<and> overlayStep ''autoBottom'' (Num (1 / 2)) = Some (Num 1)
   \<and> AssemblyInstructions ''autoBottom'' (Num 0)
       = \<lparr> stepNumber = Num 1, instruction = ''BOTTOM LOCK'' \<rparr>
   \<and> instruction (AssemblyInstructions ''autoBottom'' (Num 3)) = ''COMPLETE''
   \<and> instruction (AssemblyInstructions ''autoBottom'' NaN) = ''COMPLETE''
   \<and> animateFolding [\<lparr> userData_name = Some ''both-sides'' \<rparr>, \<lparr> userData_name = None \<rparr>]
        ''autoBottom'' (Num (1 / 2))
      = Some [\<lparr> target = 0, duration = Num (1 / 2),
                 rotation_x = Num (884279719003555 / 1125899906842624),
                 ease = ''power2.inOut'', startAt = Num (5404319552844595 / 18014398509481984) \<rparr>]"
proof -
  let ?s = "\<lparr> style_name = ''Auto Bottom Box'',
        description = ''Self-locking bottom, convenient for packing'',
        foldingSequence = [''bottom-lock'', ''sides'', ''top''], complexity = ''medium'' \<rparr>"
  have l: "lookup_style ''autoBottom'' = Some ?s"
    by (simp add: lookup_style_def BOX_STYLES_def)
  have v1: "binary64 (3 / 2) = Num (3 / 2)"
    using binary64_normal [of "0" "3 / 2"] by (simp add: roundTiesToEven_def)
  have v2: "binary64 (1 / 2) = Num (1 / 2)"
    using binary64_normal [of "- 1" "1 / 2"] by (simp add: roundTiesToEven_def)
  have v3: "binary64 (- (1 / 2)) = Num (- (1 / 2))"
    using binary64_normal [of "- 1" "(- (1 / 2))"] by (simp add: roundTiesToEven_def)
  have v4: "binary64 (884279719003555 / 562949953421312) = Num (884279719003555 / 562949953421312)"
    using binary64_normal [of "0" "884279719003555 / 562949953421312"] by (simp add: roundTiesToEven_def)
  have v5: "binary64 (884279719003555 / 1125899906842624) = Num (884279719003555 / 1125899906842624)"
    using binary64_normal [of "- 1" "884279719003555 / 1125899906842624"] by (simp add: roundTiesToEven_def)
  have v6: "binary64 (3 / 10) = Num (5404319552844595 / 18014398509481984)"
    using binary64_normal [of "- 2" "3 / 10"] by (simp add: roundTiesToEven_def)
  have v7: "binary64 (5404319552844595 / 18014398509481984) = Num (5404319552844595 / 18014398509481984)"
    using binary64_normal [of "- 2" "5404319552844595 / 18014398509481984"] by (simp add: roundTiesToEven_def)
  note ev = v1 v2 v3 v4 v5 v6 v7
  have anim: "animateFolding [\<lparr> userData_name = Some ''both-sides'' \<rparr>, \<lparr> userData_name = None \<rparr>]
        ''autoBottom'' (Num (1 / 2))
      = Some [\<lparr> target = 0, duration = Num (1 / 2),
                 rotation_x = Num (884279719003555 / 1125899906842624),
                 ease = ''power2.inOut'', startAt = Num (5404319552844595 / 18014398509481984) \<rparr>]"
    by (simp add: animateFolding_def l stepTweens_def stepProgress_def named_for_def Math_PI_def
          enumerate_eq_zip upt_rec ev)
  have fl: "Math_floor (binary64 ((1 / 2) * real (length (foldingSequence ?s)))) = Num 1"
    by (simp add: ev)
  have up: "map toUpperCase_char (replaceFirst CHR ''-'' CHR '' '' (foldingSequence ?s ! nat 0))
              = ''BOTTOM LOCK''"
    by (simp add: toUpperCase_char_def)
  from C8_folding_sequence_overlay_tween [of "''autoBottom''" ?s "Num (1 / 2)" 0 "Num 3"] l
  have a: "overlayStep ''autoBottom'' (Num (1 / 2))
             = Some (Math_floor (binary64 ((1 / 2) * real (length (foldingSequence ?s)))))"
    and c: "AssemblyInstructions ''autoBottom'' (Num (of_int 0)) =
            \<lparr> stepNumber = Num (of_int (0 + 1)),
              instruction = map toUpperCase_char
                 (replaceFirst CHR ''-'' CHR '' '' (foldingSequence ?s ! nat 0)) \<rparr>"
    by simp_all
  have three: "\<not> (\<exists>k. Num 3 = Num (of_int k) \<and> 0 \<le> k \<and> nat k < length (foldingSequence ?s))"
    by auto
  from C8_folding_sequence_overlay_tween [of "''autoBottom''" ?s "Num (1 / 2)" 0 "Num 3"] l three
  have d: "instruction (AssemblyInstructions ''autoBottom'' (Num 3)) = ''COMPLETE''"
    by simp
  have nan: "\<not> (\<exists>k. NaN = Num (of_int k) \<and> 0 \<le> k \<and> nat k < length (foldingSequence ?s))"
    by simp
  from C8_folding_sequence_overlay_tween [of "''autoBottom''" ?s "Num (1 / 2)" 0 NaN] l nan
  have e: "instruction (AssemblyInstructions ''autoBottom'' NaN) = ''COMPLETE''"
    by simp
  have a': "overlayStep ''autoBottom'' (Num (1 / 2)) = Some (Num 1)"
    using a by (simp only: fl)
  have c': "AssemblyInstructions ''autoBottom'' (Num 0)
       = \<lparr> stepNumber = Num 1, instruction = ''BOTTOM LOCK'' \<rparr>"
    using c by (simp only: up) simp
  from l a' c' d e anim show ?thesis by (simp only: simp_thms option.distinct not_False_eq_True)
qed

section \<open>Configurator pricing (app/configurator/page.tsx)\<close>

datatype box_kind = shipping | mailer | gift
datatype material_kind = corrugated | kraft | cardboard
datatype finish_kind = matte | glossy | satin | transparent

record dimensions =
  width :: jsnum
  height :: jsnum
  depth :: jsnum
  thickness :: jsnum

record BoxConfiguration =
  dimensions :: dimensions
  style :: box_kind
  material :: material_kind
  color :: string
  finish :: finish_kind
  quantity :: jsnum

text \<open>
  The text that \<open>x.toFixed(2)\<close> returns, and the number that \<open>Number\<close> reads from it.
  For a finite \<open>x\<close> of magnitude below \<open>10^21\<close>, \<open>toFixed\<close> takes the integer \<open>n\<close> for which
  \<open>n / 100\<close> is closest to the magnitude of \<open>x\<close>, the larger one of two, prints \<open>n / 100\<close>
  with two fraction digits and puts a minus sign in front when \<open>x < 0\<close>: \<open>Fixed2\<close> with
  the sign and \<open>n\<close>. For every other \<open>x\<close> the text is that of \<open>String(x)\<close>, and reading it
  gives \<open>x\<close> back: \<open>Plain\<close>. \<open>Number\<close> reads a decimal text as the double nearest to it.
\<close>

datatype numtext = Fixed2 bool nat | Plain jsnum

definition toFixed2 :: "jsnum \<Rightarrow> numtext" where
  "toFixed2 v =
     (case v of
        Num x \<Rightarrow> (if 10 ^ 21 \<le> \<bar>x\<bar> then Plain v
                   else Fixed2 (x < 0) (nat \<lfloor>\<bar>x\<bar> * 100 + 1 / 2\<rfloor>))
      | _ \<Rightarrow> Plain v)"

definition Number_of :: "numtext \<Rightarrow> jsnum" where
  "Number_of t =
     (case t of
        Fixed2 negative n \<Rightarrow> binary64 ((if negative then - 1 else 1) * (real n / 100))
      | Plain v \<Rightarrow> v)"

definition calculatedVolume :: "BoxConfiguration \<Rightarrow> numtext" where
  "calculatedVolume config =
     (let d = dimensions config
      in toFixed2 (js_div (js_mul (js_mul (width d) (height d)) (depth d)) (Num 1000)))"

definition estimatedPrice :: "BoxConfiguration \<Rightarrow> jsnum" where
  "estimatedPrice config =
     (let base = Num 25;
          vol = js_mul (Number_of (calculatedVolume config)) (Num (1 / 2));
          matScale = (if material config = corrugated then binary64 (12 / 10) else Num 1)
      in Math_round (js_mul (js_add base vol) matScale))"

definition totalPrice :: "BoxConfiguration \<Rightarrow> jsnum" where
  "totalPrice config = js_mul (estimatedPrice config) (quantity config)"

lemma toFixed2_nearest:
  assumes "\<bar>x\<bar> < 10 ^ 21"
  shows "\<exists>n. toFixed2 (Num x) = Fixed2 (x < 0) n
             \<and> real n / 100 - \<bar>x\<bar> \<le> 1 / 200 \<and> \<bar>x\<bar> - real n / 100 < 1 / 200"
proof -
  define n where "n = \<lfloor>\<bar>x\<bar> * 100 + 1 / 2\<rfloor>"
  have "0 \<le> n" unfolding n_def by simp
  then have r: "real (nat n) = of_int n" by simp
  have "real_of_int n \<le> \<bar>x\<bar> * 100 + 1 / 2" and "\<bar>x\<bar> * 100 + 1 / 2 < real_of_int n + 1"
    unfolding n_def by linarith+
  then have "real (nat n) / 100 - \<bar>x\<bar> \<le> 1 / 200" and "\<bar>x\<bar> - real (nat n) / 100 < 1 / 200"
    unfolding r by linarith+
  moreover have "toFixed2 (Num x) = Fixed2 (x < 0) (nat n)"
    using assms by (simp add: toFixed2_def n_def)
  ultimately show ?thesis by blast
qed

text \<open>
  The price is computed from the volume as rendered: with the quotient itself in its
  place, 6 by 29 by 91 (15.834 litres, rendered 15.83) would cost 40 and not 39.
\<close>

lemma unrendered_volume_gives_other_price:
  "estimatedPrice \<lparr> dimensions = \<lparr> width = Num 6, height = Num 29, depth = Num 91, thickness = Num 3 \<rparr>,
       style = shipping, material = corrugated, color = ''#8B4513'', finish = matte,
       quantity = Num 100 \<rparr> = Num 39
   \<and> Math_round (js_mul (js_add (Num 25)
          (js_mul (js_div (js_mul (js_mul (Num 6) (Num 29)) (Num 91)) (Num 1000)) (Num (1 / 2))))
        (binary64 (12 / 10))) = Num 40"
proof -
  let ?c = "\<lparr> dimensions = \<lparr> width = Num 6, height = Num 29, depth = Num 91, thickness = Num 3 \<rparr>,
       style = shipping, material = corrugated, color = ''#8B4513'', finish = matte,
       quantity = Num 100 \<rparr>"
  have a1: "js_mul (Num 6) (Num 29) = Num 174"
    using binary64_normal [of "7" "6 * 29"] by (simp add: roundTiesToEven_def)
  have a2: "js_mul (Num 174) (Num 91) = Num 15834"
    using binary64_normal [of "13" "174 * 91"] by (simp add: roundTiesToEven_def)
  have a3: "js_div (Num 15834) (Num 1000) = Num (4456874781236527 / 281474976710656)"
    using binary64_normal [of "3" "15834 / 1000"] by (simp add: roundTiesToEven_def)
  have a4: "toFixed2 (Num (4456874781236527 / 281474976710656)) = Fixed2 False 1583"
    by (simp add: toFixed2_def)
  have a5: "Number_of (Fixed2 False 1583) = Num (8911497762659369 / 562949953421312)"
    using binary64_normal [of "3" "1583 / 100"] by (simp add: roundTiesToEven_def Number_of_def)
  have a6: "js_mul (Num (8911497762659369 / 562949953421312)) (Num (1 / 2)) = Num (8911497762659369 / 1125899906842624)"
    using binary64_normal [of "2" "(8911497762659369 / 562949953421312) * (1 / 2)"] by (simp add: roundTiesToEven_def)
  have a7: "js_add (Num 25) (Num (8911497762659369 / 1125899906842624)) = Num (4632374429215621 / 140737488355328)"
    using binary64_normal [of "5" "25 + (8911497762659369 / 1125899906842624)"] by (simp add: roundTiesToEven_def)
  have a8: "binary64 (6 / 5) = Num (5404319552844595 / 4503599627370496)"
    using binary64_normal [of "0" "6 / 5"] by (simp add: roundTiesToEven_def)
  have a9: "js_mul (Num (4632374429215621 / 140737488355328)) (Num (5404319552844595 / 4503599627370496)) = Num (5558849315058745 / 140737488355328)"
    using binary64_normal [of "5" "(4632374429215621 / 140737488355328) * (5404319552844595 / 4503599627370496)"] by (simp add: roundTiesToEven_def)
  have a10: "Math_round (Num (5558849315058745 / 140737488355328)) = Num 39"
    by simp
  have a11: "js_mul (Num 39) (Num 100) = Num 3900"
    using binary64_normal [of "11" "39 * 100"] by (simp add: roundTiesToEven_def)
  have av: "calculatedVolume ?c = Fixed2 False 1583"
    by (simp add: calculatedVolume_def a1 a2 a3 a4 del: js_add.simps js_mul.simps js_div.simps Math_round.simps)
  have e: "estimatedPrice ?c = Num 39"
    by (simp add: estimatedPrice_def av a5 a6 a7 a8 a9 a10 del: js_add.simps js_mul.simps js_div.simps Math_round.simps)
  have b1: "js_mul (Num (4456874781236527 / 281474976710656)) (Num (1 / 2)) = Num (4456874781236527 / 562949953421312)"
    using binary64_normal [of "2" "(4456874781236527 / 281474976710656) * (1 / 2)"] by (simp add: roundTiesToEven_def)
  have b2: "js_add (Num 25) (Num (4456874781236527 / 562949953421312)) = Num (1158163976048083 / 35184372088832)"
    using binary64_normal [of "5" "25 + (4456874781236527 / 562949953421312)"] by (simp add: roundTiesToEven_def)
  have b3: "js_mul (Num (1158163976048083 / 35184372088832)) (Num (5404319552844595 / 4503599627370496)) = Num (2779593542515399 / 70368744177664)"
    using binary64_normal [of "5" "(1158163976048083 / 35184372088832) * (5404319552844595 / 4503599627370496)"] by (simp add: roundTiesToEven_def)
  have b4: "Math_round (Num (2779593542515399 / 70368744177664)) = Num 40"
    by simp
  have u: "Math_round (js_mul (js_add (Num 25)
          (js_mul (js_div (js_mul (js_mul (Num 6) (Num 29)) (Num 91)) (Num 1000)) (Num (1 / 2))))
        (binary64 (12 / 10))) = Num 40"
    by (simp add: a1 a2 a3 a8 b1 b2 b3 b4 del: js_add.simps js_mul.simps js_div.simps Math_round.simps)
  from e u show ?thesis by (simp only: simp_thms)
qed

text \<open>
  Claim C4, as stated: the derived volume is width times height times depth over 1000,
  rendered to two decimal places. At 15 by 49 by 17, inside the range of the sliders, that
  quotient is 12.495, which \<open>toFixed\<close> renders \<open>12.50\<close> (of two nearest it takes the
  larger), and \<open>round((25 + 12.50 * 0.5) * 1.2)\<close> is 38. The quotient that the code
  computes is the double nearest to 12.495, which is below it: the page shows \<open>12.49\<close>,
  the unit price 37 and, for 100 boxes, the total 3700.
\<close>

theorem C4_rounded_quotient_counterexample:
  "(15 * 49 * 17 / 1000 :: real) = 12495 / 1000
   \<and> toFixed2 (Num (12495 / 1000)) = Fixed2 False 1250
   \<and> \<lfloor>(25 + 1250 / 100 * (1 / 2)) * (12 / 10) + 1 / 2 :: real\<rfloor> = 38
   \<and> calculatedVolume
        \<lparr> dimensions = \<lparr> width = Num 15, height = Num 49, depth = Num 17, thickness = Num 3 \<rparr>,
          style = shipping, material = corrugated, color = ''#8B4513'', finish = matte,
          quantity = Num 100 \<rparr> = Fixed2 False 1249
   \<and> estimatedPrice
        \<lparr> dimensions = \<lparr> width = Num 15, height = Num 49, depth = Num 17, thickness = Num 3 \<rparr>,
          style = shipping, material = corrugated, color = ''#8B4513'', finish = matte,
          quantity = Num 100 \<rparr> = Num 37
   \<and> totalPrice
        \<lparr> dimensions = \<lparr> width = Num 15, height = Num 49, depth = Num 17, thickness = Num 3 \<rparr>,
          style = shipping, material = corrugated, color = ''#8B4513'', finish = matte,
          quantity = Num 100 \<rparr> = Num 3700"
proof -
  let ?c = "\<lparr> dimensions = \<lparr> width = Num 15, height = Num 49, depth = Num 17, thickness = Num 3 \<rparr>,
          style = shipping, material = corrugated, color = ''#8B4513'', finish = matte,
          quantity = Num 100 \<rparr>"
  have x: "(15 * 49 * 17 / 1000 :: real) = 12495 / 1000"
    by simp
  have r: "toFixed2 (Num (12495 / 1000)) = Fixed2 False 1250"
    by (simp add: toFixed2_def)
  have f: "\<lfloor>(25 + 1250 / 100 * (1 / 2)) * (12 / 10) + 1 / 2 :: real\<rfloor> = 38"
    by simp
  have a1: "js_mul (Num 15) (Num 49) = Num 735"
    using binary64_normal [of "9" "15 * 49"] by (simp add: roundTiesToEven_def)
  have a2: "js_mul (Num 735) (Num 17) = Num 12495"
    using binary64_normal [of "13" "735 * 17"] by (simp add: roundTiesToEven_def)
  have a3: "js_div (Num 12495) (Num 1000) = Num (7034059667999293 / 562949953421312)"
    using binary64_normal [of "3" "12495 / 1000"] by (simp add: roundTiesToEven_def)
  have a4: "toFixed2 (Num (7034059667999293 / 562949953421312)) = Fixed2 False 1249"
    by (simp add: toFixed2_def)
  have a5: "Number_of (Fixed2 False 1249) = Num (7031244918232187 / 562949953421312)"
    using binary64_normal [of "3" "1249 / 100"] by (simp add: roundTiesToEven_def Number_of_def)
  have a6: "js_mul (Num (7031244918232187 / 562949953421312)) (Num (1 / 2)) = Num (7031244918232187 / 1125899906842624)"
    using binary64_normal [of "2" "(7031244918232187 / 562949953421312) * (1 / 2)"] by (simp add: roundTiesToEven_def)
  have a7: "js_add (Num 25) (Num (7031244918232187 / 1125899906842624)) = Num (8794685647324447 / 281474976710656)"
    using binary64_normal [of "4" "25 + (7031244918232187 / 1125899906842624)"] by (simp add: roundTiesToEven_def)
  have a8: "binary64 (6 / 5) = Num (5404319552844595 / 4503599627370496)"
    using binary64_normal [of "0" "6 / 5"] by (simp add: roundTiesToEven_def)
  have a9: "js_mul (Num (8794685647324447 / 281474976710656)) (Num (5404319552844595 / 4503599627370496)) = Num (1319202847098667 / 35184372088832)"
    using binary64_normal [of "5" "(8794685647324447 / 281474976710656) * (5404319552844595 / 4503599627370496)"] by (simp add: roundTiesToEven_def)
  have a10: "Math_round (Num (1319202847098667 / 35184372088832)) = Num 37"
    by simp
  have a11: "js_mul (Num 37) (Num 100) = Num 3700"
    using binary64_normal [of "11" "37 * 100"] by (simp add: roundTiesToEven_def)
  have av: "calculatedVolume ?c = Fixed2 False 1249"
    by (simp add: calculatedVolume_def a1 a2 a3 a4 del: js_add.simps js_mul.simps js_div.simps Math_round.simps)
  have e: "estimatedPrice ?c = Num 37"
    by (simp add: estimatedPrice_def av a5 a6 a7 a8 a9 a10 del: js_add.simps js_mul.simps js_div.simps Math_round.simps)
  have t: "totalPrice ?c = Num 3700"
    by (simp add: totalPrice_def e a11 del: js_add.simps js_mul.simps js_div.simps Math_round.simps)
  from x r f av e t show ?thesis by (simp only: simp_thms)
qed

text \<open>
  Claim C4, amended: the arithmetic is that of doubles. For every configuration the
  derived volume is the text that \<open>toFixed(2)\<close> gives for the double
  \<open>width * height * depth / 1000\<close>, each product and the quotient rounded: for a finite
  quotient of magnitude below \<open>10^21\<close>, the number of hundredths nearest to it, the larger
  of two. The unit price is \<open>Math.round((25 + volume * 0.5) * 1.2)\<close> for the corrugated
  material and \<open>Math.round(25 + volume * 0.5)\<close> for every other material, where the volume
  is the double read back from the rendered text and sums and products are rounded to
  doubles; and the estimated total is the double product of unit price and quantity.
\<close>

theorem C4_configurator_pricing:
  "calculatedVolume config =
      toFixed2 (js_div (js_mul (js_mul (width (dimensions config)) (height (dimensions config)))
                          (depth (dimensions config))) (Num 1000))
   \<and> (\<forall>x. js_div (js_mul (js_mul (width (dimensions config)) (height (dimensions config)))
                    (depth (dimensions config))) (Num 1000) = Num x \<and> \<bar>x\<bar> < 10 ^ 21 \<longrightarrow>
          (\<exists>n. calculatedVolume config = Fixed2 (x < 0) n
              \<and> real n / 100 - \<bar>x\<bar> \<le> 1 / 200 \<and> \<bar>x\<bar> - real n / 100 < 1 / 200))
   \<and> (material config = corrugated \<longrightarrow>
        estimatedPrice config =
          Math_round (js_mul (js_add (Num 25)
                                (js_mul (Number_of (calculatedVolume config)) (Num (1 / 2))))
                        (binary64 (12 / 10))))
   \<and> (material config \<noteq> corrugated \<longrightarrow>
        estimatedPrice config =
          Math_round (js_add (Num 25) (js_mul (Number_of (calculatedVolume config)) (Num (1 / 2)))))
   \<and> totalPrice config = js_mul (estimatedPrice config) (quantity config)"
proof -
  let ?q = "js_div (js_mul (js_mul (width (dimensions config)) (height (dimensions config)))
                          (depth (dimensions config))) (Num 1000)"
  have v: "calculatedVolume config = toFixed2 ?q"
    by (simp add: calculatedVolume_def Let_def)
  have n: "\<forall>x. ?q = Num x \<and> \<bar>x\<bar> < 10 ^ 21 \<longrightarrow>
          (\<exists>n. calculatedVolume config = Fixed2 (x < 0) n
              \<and> real n / 100 - \<bar>x\<bar> \<le> 1 / 200 \<and> \<bar>x\<bar> - real n / 100 < 1 / 200)"
  proof (intro allI impI)
    fix x
    assume a: "?q = Num x \<and> \<bar>x\<bar> < 10 ^ 21"
    then have "\<bar>x\<bar> < 10 ^ 21" by simp
    from toFixed2_nearest [OF this] a v
    show "\<exists>n. calculatedVolume config = Fixed2 (x < 0) n
              \<and> real n / 100 - \<bar>x\<bar> \<le> 1 / 200 \<and> \<bar>x\<bar> - real n / 100 < 1 / 200"
      by simp
  qed
  have c: "material config = corrugated \<longrightarrow>
        estimatedPrice config =
          Math_round (js_mul (js_add (Num 25)
                                (js_mul (Number_of (calculatedVolume config)) (Num (1 / 2))))
                        (binary64 (12 / 10)))"
    by (simp add: estimatedPrice_def Let_def)
  have k: "material config \<noteq> corrugated \<longrightarrow>
        estimatedPrice config =
          Math_round (js_add (Num 25) (js_mul (Number_of (calculatedVolume config)) (Num (1 / 2))))"
    by (simp add: estimatedPrice_def Let_def js_mul_one_sum)
  have t: "totalPrice config = js_mul (estimatedPrice config) (quantity config)"
    by (simp add: totalPrice_def)
  from v n c k t show ?thesis by (simp only: simp_thms)
qed

theorem C4_configurator_pricing_witness:
  "calculatedVolume \<lparr> dimensions = \<lparr> width = Num 10, height = Num 10, depth = Num 12, thickness = Num 3 \<rparr>,
       style = shipping, material = corrugated, color = ''#8B4513'', finish = matte,
       quantity = Num 100 \<rparr> = Fixed2 False 120
   \<and> estimatedPrice \<lparr> dimensions = \<lparr> width = Num 10, height = Num 10, depth = Num 12, thickness = Num 3 \<rparr>,
       style = shipping, material = corrugated, color = ''#8B4513'', finish = matte,
       quantity = Num 100 \<rparr> = Num 31
   \<and> totalPrice \<lparr> dimensions = \<lparr> width = Num 10, height = Num 10, depth = Num 12, thickness = Num 3 \<rparr>,
       style = shipping, material = corrugated, color = ''#8B4513'', finish = matte,
       quantity = Num 100 \<rparr> = Num 3100
   \<and> estimatedPrice \<lparr> dimensions = \<lparr> width = Num 5, height = Num 5, depth = Num 7, thickness = Num 3 \<rparr>,
       style = mailer, material = kraft, color = ''#8B4513'', finish = glossy,
       quantity = Num 10 \<rparr> = Num 25
   \<and> calculatedVolume \<lparr> dimensions = \<lparr> width = Num 5, height = Num 5, depth = Num 7, thickness = Num 3 \<rparr>,
       style = mailer, material = kraft, color = ''#8B4513'', finish = glossy,
       quantity = Num 10 \<rparr> = Fixed2 False 17"
proof -
  let ?c = "\<lparr> dimensions = \<lparr> width = Num 10, height = Num 10, depth = Num 12, thickness = Num 3 \<rparr>,
       style = shipping, material = corrugated, color = ''#8B4513'', finish = matte,
       quantity = Num 100 \<rparr>"
  let ?k = "\<lparr> dimensions = \<lparr> width = Num 5, height = Num 5, depth = Num 7, thickness = Num 3 \<rparr>,
       style = mailer, material = kraft, color = ''#8B4513'', finish = glossy,
       quantity = Num 10 \<rparr>"
  note tc = C4_configurator_pricing [of ?c]
  note tk = C4_configurator_pricing [of ?k]
  have a1: "js_mul (Num 10) (Num 10) = Num 100"
    using binary64_normal [of "6" "10 * 10"] by (simp add: roundTiesToEven_def)
  have a2: "js_mul (Num 100) (Num 12) = Num 1200"
    using binary64_normal [of "10" "100 * 12"] by (simp add: roundTiesToEven_def)
  have a3: "js_div (Num 1200) (Num 1000) = Num (5404319552844595 / 4503599627370496)"
    using binary64_normal [of "0" "1200 / 1000"] by (simp add: roundTiesToEven_def)
  have a4: "toFixed2 (Num (5404319552844595 / 4503599627370496)) = Fixed2 False 120"
    by (simp add: toFixed2_def)
  have a5: "Number_of (Fixed2 False 120) = Num (5404319552844595 / 4503599627370496)"
    using binary64_normal [of "0" "6 / 5"] by (simp add: roundTiesToEven_def Number_of_def)
  have a6: "js_mul (Num (5404319552844595 / 4503599627370496)) (Num (1 / 2)) = Num (5404319552844595 / 9007199254740992)"
    using binary64_normal [of "- 1" "(5404319552844595 / 4503599627370496) * (1 / 2)"] by (simp add: roundTiesToEven_def)
  have a7: "js_add (Num 25) (Num (5404319552844595 / 9007199254740992)) = Num (3602879701896397 / 140737488355328)"
    using binary64_normal [of "4" "25 + (5404319552844595 / 9007199254740992)"] by (simp add: roundTiesToEven_def)
  have a8: "binary64 (6 / 5) = Num (5404319552844595 / 4503599627370496)"
    using binary64_normal [of "0" "6 / 5"] by (simp add: roundTiesToEven_def)
  have a9: "js_mul (Num (3602879701896397 / 140737488355328)) (Num (5404319552844595 / 4503599627370496)) = Num (1080863910568919 / 35184372088832)"
    using binary64_normal [of "4" "(3602879701896397 / 140737488355328) * (5404319552844595 / 4503599627370496)"] by (simp add: roundTiesToEven_def)
  have a10: "Math_round (Num (1080863910568919 / 35184372088832)) = Num 31"
    by simp
  have a11: "js_mul (Num 31) (Num 100) = Num 3100"
    using binary64_normal [of "11" "31 * 100"] by (simp add: roundTiesToEven_def)
  have k01: "js_mul (Num 5) (Num 5) = Num 25"
    using binary64_normal [of "4" "5 * 5"] by (simp add: roundTiesToEven_def)
  have k2: "js_mul (Num 25) (Num 7) = Num 175"
    using binary64_normal [of "7" "25 * 7"] by (simp add: roundTiesToEven_def)
  have k3: "js_div (Num 175) (Num 1000) = Num (3152519739159347 / 18014398509481984)"
    using binary64_normal [of "- 3" "175 / 1000"] by (simp add: roundTiesToEven_def)
  have k4: "toFixed2 (Num (3152519739159347 / 18014398509481984)) = Fixed2 False 17"
    by (simp add: toFixed2_def)
  have k5: "Number_of (Fixed2 False 17) = Num (6124895493223875 / 36028797018963968)"
    using binary64_normal [of "- 3" "17 / 100"] by (simp add: roundTiesToEven_def Number_of_def)
  have k6: "js_mul (Num (6124895493223875 / 36028797018963968)) (Num (1 / 2)) = Num (6124895493223875 / 72057594037927936)"
    using binary64_normal [of "- 4" "(6124895493223875 / 36028797018963968) * (1 / 2)"] by (simp add: roundTiesToEven_def)
  have k7: "js_add (Num 25) (Num (6124895493223875 / 72057594037927936)) = Num (3530399895393403 / 140737488355328)"
    using binary64_normal [of "4" "25 + (6124895493223875 / 72057594037927936)"] by (simp add: roundTiesToEven_def)
  have k10: "Math_round (Num (3530399895393403 / 140737488355328)) = Num 25"
    by simp
  have k11: "js_mul (Num 25) (Num 10) = Num 250"
    using binary64_normal [of "7" "25 * 10"] by (simp add: roundTiesToEven_def)
  have c1: "calculatedVolume ?c = Fixed2 False 120"
    using tc by (simp add: a1 a2 a3 a4 del: js_add.simps js_mul.simps js_div.simps Math_round.simps)
  have "estimatedPrice ?c =
          Math_round (js_mul (js_add (Num 25)
                                (js_mul (Number_of (calculatedVolume ?c)) (Num (1 / 2))))
                        (binary64 (12 / 10)))"
    using tc by simp
  then have c2: "estimatedPrice ?c = Num 31"
    by (simp add: c1 a5 a6 a7 a8 a9 a10 del: js_add.simps js_mul.simps js_div.simps Math_round.simps)
  have "totalPrice ?c = js_mul (estimatedPrice ?c) (quantity ?c)"
    using tc by simp
  then have c3: "totalPrice ?c = Num 3100"
    by (simp add: c2 a11 del: js_add.simps js_mul.simps js_div.simps Math_round.simps)
  have k1: "calculatedVolume ?k = Fixed2 False 17"
    using tk by (simp add: k01 k2 k3 k4 del: js_add.simps js_mul.simps js_div.simps Math_round.simps)
  have "estimatedPrice ?k =
          Math_round (js_add (Num 25) (js_mul (Number_of (calculatedVolume ?k)) (Num (1 / 2))))"
    using tk by simp
  then have k2: "estimatedPrice ?k = Num 25"
    by (simp add: k1 k5 k6 k7 k10 del: js_add.simps js_mul.simps js_div.simps Math_round.simps)
  from c1 c2 c3 k1 k2 show ?thesis by (simp only: simp_thms)
qed

section \<open>Checkout totals (app/checkout/page.tsx)\<close>

text \<open>
  A cart item as \<open>calculateTotal\<close> reads it: \<open>price\<close> is a string by its declared type
  and a number in the other branch of the \<open>typeof\<close> test; \<open>quantity\<close> is a number.
\<close>

datatype price_field = PriceString jsstring | PriceNumber jsnum

record CartItem =
  item_id :: int
  price :: price_field
  item_quantity :: jsnum

text \<open>
  \<open>Number.parseFloat\<close> is a function of the platform and a parameter of the model:
  it maps a string to the double nearest to the decimal number at its start, and to
  \<open>NaN\<close> when there is none.
\<close>

definition item_price :: "(jsstring \<Rightarrow> jsnum) \<Rightarrow> CartItem \<Rightarrow> jsnum" where
  "item_price parseFloat item =
     (case price item of PriceString s \<Rightarrow> parseFloat s | PriceNumber n \<Rightarrow> n)"

definition calculateTotal :: "(jsstring \<Rightarrow> jsnum) \<Rightarrow> CartItem list \<Rightarrow> jsnum" where
  "calculateTotal parseFloat cartItems =
     foldl (\<lambda>total item. js_add total (js_mul (item_price parseFloat item) (item_quantity item)))
       (Num 0) cartItems"

record order_summary =
  total :: jsnum
  gst :: jsnum
  deliveryCharges :: jsnum
  finalTotal :: jsnum

definition checkoutSummary :: "(jsstring \<Rightarrow> jsnum) \<Rightarrow> CartItem list \<Rightarrow> order_summary" where
  "checkoutSummary parseFloat cartItems =
     (let total = calculateTotal parseFloat cartItems;
          gst = js_mul total (binary64 (18 / 100));
          deliveryCharges = (if js_gt total (Num 5000) then Num 0 else Num 200);
          finalTotal = js_add (js_add total gst) deliveryCharges
      in \<lparr> total = total, gst = gst, deliveryCharges = deliveryCharges,
           finalTotal = finalTotal \<rparr>)"

text \<open>
  The sum of a list of doubles as the code forms it: from 0, adding the elements from
  left to right, each partial sum rounded.
\<close>

definition js_sum :: "jsnum list \<Rightarrow> jsnum" where
  "js_sum xs = foldl js_add (Num 0) xs"

lemma calculateTotal_js_sum:
  "calculateTotal pf items
     = js_sum (map (\<lambda>item. js_mul (item_price pf item) (item_quantity item)) items)"
  by (simp add: calculateTotal_def js_sum_def foldl_map)

text \<open>
  Claim C2, as stated: the subtotal is the sum of price times quantity over the items,
  and the delivery charges are 200 unless that sum is above 5000. A cart of 3 items at
  1585.78, 2 at 39.28 and 2 at 82.05 comes to 5000.00 exactly; the three prices as parsed,
  the doubles nearest to them, come to a little less than 5000. The total that the code
  computes, each product and each partial sum rounded, is the next double above 5000, so
  the delivery is free and the final total is 5900.000000000001, where the claim has 200
  for delivery and 6100. With the same items in the reverse order the computed total is
  5000 and the delivery 200: the computed total is not a function of the sum.
\<close>

theorem C2_rounded_sum_counterexample:
  "(158578 / 100 * 3 + 3928 / 100 * 2 + 8205 / 100 * 2 :: real) = 5000
   \<and> binary64 (158578 / 100) = Num (6974334196378501 / 4398046511104)
   \<and> binary64 (3928 / 100) = Num (1382042135649321 / 35184372088832)
   \<and> binary64 (8205 / 100) = Num (5773755459777331 / 70368744177664)
   \<and> ((6974334196378501 / 4398046511104) * 3 + (1382042135649321 / 35184372088832) * 2 + (5773755459777331 / 70368744177664) * 2 :: real) < 5000
   \<and> total (checkoutSummary
        (\<lambda>s. if s = js ''1585.78'' then Num (6974334196378501 / 4398046511104)
              else if s = js ''39.28'' then Num (1382042135649321 / 35184372088832)
              else if s = js ''82.05'' then Num (5773755459777331 / 70368744177664) else NaN)
        [\<lparr> item_id = 1, price = PriceString (js ''1585.78''), item_quantity = Num 3 \<rparr>,
         \<lparr> item_id = 2, price = PriceString (js ''39.28''), item_quantity = Num 2 \<rparr>,
         \<lparr> item_id = 3, price = PriceString (js ''82.05''), item_quantity = Num 2 \<rparr>])
       = Num (5497558138880001 / 1099511627776)
   \<and> deliveryCharges (checkoutSummary
        (\<lambda>s. if s = js ''1585.78'' then Num (6974334196378501 / 4398046511104)
              else if s = js ''39.28'' then Num (1382042135649321 / 35184372088832)
              else if s = js ''82.05'' then Num (5773755459777331 / 70368744177664) else NaN)
        [\<lparr> item_id = 1, price = PriceString (js ''1585.78''), item_quantity = Num 3 \<rparr>,
         \<lparr> item_id = 2, price = PriceString (js ''39.28''), item_quantity = Num 2 \<rparr>,
         \<lparr> item_id = 3, price = PriceString (js ''82.05''), item_quantity = Num 2 \<rparr>])
       = Num 0
   \<and> finalTotal (checkoutSummary
        (\<lambda>s. if s = js ''1585.78'' then Num (6974334196378501 / 4398046511104)
              else if s = js ''39.28'' then Num (1382042135649321 / 35184372088832)
              else if s = js ''82.05'' then Num (5773755459777331 / 70368744177664) else NaN)
        [\<lparr> item_id = 1, price = PriceString (js ''1585.78''), item_quantity = Num 3 \<rparr>,
         \<lparr> item_id = 2, price = PriceString (js ''39.28''), item_quantity = Num 2 \<rparr>,
         \<lparr> item_id = 3, price = PriceString (js ''82.05''), item_quantity = Num 2 \<rparr>])
       = Num (6487118603878401 / 1099511627776)
   \<and> total (checkoutSummary
        (\<lambda>s. if s = js ''1585.78'' then Num (6974334196378501 / 4398046511104)
              else if s = js ''39.28'' then Num (1382042135649321 / 35184372088832)
              else if s = js ''82.05'' then Num (5773755459777331 / 70368744177664) else NaN)
        [\<lparr> item_id = 3, price = PriceString (js ''82.05''), item_quantity = Num 2 \<rparr>,
         \<lparr> item_id = 2, price = PriceString (js ''39.28''), item_quantity = Num 2 \<rparr>,
         \<lparr> item_id = 1, price = PriceString (js ''1585.78''), item_quantity = Num 3 \<rparr>])
       = Num 5000
   \<and> deliveryCharges (checkoutSummary
        (\<lambda>s. if s = js ''1585.78'' then Num (6974334196378501 / 4398046511104)
              else if s = js ''39.28'' then Num (1382042135649321 / 35184372088832)
              else if s = js ''82.05'' then Num (5773755459777331 / 70368744177664) else NaN)
        [\<lparr> item_id = 3, price = PriceString (js ''82.05''), item_quantity = Num 2 \<rparr>,
         \<lparr> item_id = 2, price = PriceString (js ''39.28''), item_quantity = Num 2 \<rparr>,
         \<lparr> item_id = 1, price = PriceString (js ''1585.78''), item_quantity = Num 3 \<rparr>])
       = Num 200"
proof -
  let ?pf = "\<lambda>s. if s = js ''1585.78'' then Num (6974334196378501 / 4398046511104)
              else if s = js ''39.28'' then Num (1382042135649321 / 35184372088832)
              else if s = js ''82.05'' then Num (5773755459777331 / 70368744177664) else NaN"
  let ?i1 = "\<lparr> item_id = 1, price = PriceString (js ''1585.78''), item_quantity = Num 3 \<rparr>"
  let ?i2 = "\<lparr> item_id = 2, price = PriceString (js ''39.28''), item_quantity = Num 2 \<rparr>"
  let ?i3 = "\<lparr> item_id = 3, price = PriceString (js ''82.05''), item_quantity = Num 2 \<rparr>"
  have x: "(158578 / 100 * 3 + 3928 / 100 * 2 + 8205 / 100 * 2 :: real) = 5000"
    by simp
  have d1: "binary64 (158578 / 100) = Num (6974334196378501 / 4398046511104)"
    using binary64_normal [of "10" "79289 / 50"] by (simp add: roundTiesToEven_def)
  have d2: "binary64 (3928 / 100) = Num (1382042135649321 / 35184372088832)"
    using binary64_normal [of "5" "982 / 25"] by (simp add: roundTiesToEven_def)
  have d3: "binary64 (8205 / 100) = Num (5773755459777331 / 70368744177664)"
    using binary64_normal [of "6" "1641 / 20"] by (simp add: roundTiesToEven_def)
  have y: "((6974334196378501 / 4398046511104) * 3 + (1382042135649321 / 35184372088832) * 2 + (5773755459777331 / 70368744177664) * 2 :: real) < 5000"
    by simp
  have p1: "item_price ?pf ?i1 = Num (6974334196378501 / 4398046511104)"
    by (simp add: item_price_def)
  have p2: "item_price ?pf ?i2 = Num (1382042135649321 / 35184372088832)"
    by (simp add: item_price_def js_def)
  have p3: "item_price ?pf ?i3 = Num (5773755459777331 / 70368744177664)"
    by (simp add: item_price_def js_def)
  have am1: "js_mul (Num (6974334196378501 / 4398046511104)) (Num 3) = Num (1307687661820969 / 274877906944)"
    using binary64_normal [of "12" "(6974334196378501 / 4398046511104) * 3"] by (simp add: roundTiesToEven_def)
  have as1: "js_add (Num 0) (Num (1307687661820969 / 274877906944)) = Num (1307687661820969 / 274877906944)"
    using binary64_normal [of "12" "0 + (1307687661820969 / 274877906944)"] by (simp add: roundTiesToEven_def)
  have am2: "js_mul (Num (1382042135649321 / 35184372088832)) (Num 2) = Num (1382042135649321 / 17592186044416)"
    using binary64_normal [of "6" "(1382042135649321 / 35184372088832) * 2"] by (simp add: roundTiesToEven_def)
  have as2: "js_add (Num (1307687661820969 / 274877906944)) (Num (1382042135649321 / 17592186044416)) = Num (5317128280761959 / 1099511627776)"
    using binary64_normal [of "12" "(1307687661820969 / 274877906944) + (1382042135649321 / 17592186044416)"] by (simp add: roundTiesToEven_def)
  have am3: "js_mul (Num (5773755459777331 / 70368744177664)) (Num 2) = Num (5773755459777331 / 35184372088832)"
    using binary64_normal [of "7" "(5773755459777331 / 70368744177664) * 2"] by (simp add: roundTiesToEven_def)
  have as3: "js_add (Num (5317128280761959 / 1099511627776)) (Num (5773755459777331 / 35184372088832)) = Num (5497558138880001 / 1099511627776)"
    using binary64_normal [of "12" "(5317128280761959 / 1099511627776) + (5773755459777331 / 35184372088832)"] by (simp add: roundTiesToEven_def)
  have c18: "binary64 (9 / 50) = Num (3242591731706757 / 18014398509481984)"
    using binary64_normal [of "- 3" "9 / 50"] by (simp add: roundTiesToEven_def)
  have ag: "js_mul (Num (5497558138880001 / 1099511627776)) (Num (3242591731706757 / 18014398509481984)) = Num (7916483719987201 / 8796093022208)"
    using binary64_normal [of "9" "(5497558138880001 / 1099511627776) * (3242591731706757 / 18014398509481984)"] by (simp add: roundTiesToEven_def)
  have af1: "js_add (Num (5497558138880001 / 1099511627776)) (Num (7916483719987201 / 8796093022208)) = Num (6487118603878401 / 1099511627776)"
    using binary64_normal [of "12" "(5497558138880001 / 1099511627776) + (7916483719987201 / 8796093022208)"] by (simp add: roundTiesToEven_def)
  have af2: "js_add (Num (6487118603878401 / 1099511627776)) (Num 0) = Num (6487118603878401 / 1099511627776)"
    using binary64_normal [of "12" "(6487118603878401 / 1099511627776) + 0"] by (simp add: roundTiesToEven_def)
  have rm1: "js_mul (Num (5773755459777331 / 70368744177664)) (Num 2) = Num (5773755459777331 / 35184372088832)"
    using binary64_normal [of "7" "(5773755459777331 / 70368744177664) * 2"] by (simp add: roundTiesToEven_def)
  have rs1: "js_add (Num 0) (Num (5773755459777331 / 35184372088832)) = Num (5773755459777331 / 35184372088832)"
    using binary64_normal [of "7" "0 + (5773755459777331 / 35184372088832)"] by (simp add: roundTiesToEven_def)
  have rm2: "js_mul (Num (1382042135649321 / 35184372088832)) (Num 2) = Num (1382042135649321 / 17592186044416)"
    using binary64_normal [of "6" "(1382042135649321 / 35184372088832) * 2"] by (simp add: roundTiesToEven_def)
  have rs2: "js_add (Num (5773755459777331 / 35184372088832)) (Num (1382042135649321 / 17592186044416)) = Num (8537839731075973 / 35184372088832)"
    using binary64_normal [of "7" "(5773755459777331 / 35184372088832) + (1382042135649321 / 17592186044416)"] by (simp add: roundTiesToEven_def)
  have rm3: "js_mul (Num (6974334196378501 / 4398046511104)) (Num 3) = Num (1307687661820969 / 274877906944)"
    using binary64_normal [of "12" "(6974334196378501 / 4398046511104) * 3"] by (simp add: roundTiesToEven_def)
  have rs3: "js_add (Num (8537839731075973 / 35184372088832)) (Num (1307687661820969 / 274877906944)) = Num 5000"
    using binary64_normal [of "12" "(8537839731075973 / 35184372088832) + (1307687661820969 / 274877906944)"] by (simp add: roundTiesToEven_def)
  have t: "calculateTotal ?pf [?i1, ?i2, ?i3] = Num (5497558138880001 / 1099511627776)"
    by (simp add: calculateTotal_def p1 p2 p3 am1 as1 am2 as2 am3 as3 del: js_add.simps js_mul.simps)
  have tr: "calculateTotal ?pf [?i3, ?i2, ?i1] = Num 5000"
    by (simp add: calculateTotal_def p1 p2 p3 rm1 rs1 rm2 rs2 rm3 rs3 del: js_add.simps js_mul.simps)
  have a: "total (checkoutSummary ?pf [?i1, ?i2, ?i3]) = Num (5497558138880001 / 1099511627776)"
    by (simp add: checkoutSummary_def Let_def t)
  have b: "deliveryCharges (checkoutSummary ?pf [?i1, ?i2, ?i3]) = Num 0"
    by (simp add: checkoutSummary_def Let_def t)
  have c: "finalTotal (checkoutSummary ?pf [?i1, ?i2, ?i3]) = Num (6487118603878401 / 1099511627776)"
    by (simp add: checkoutSummary_def Let_def t c18 ag af1 af2 del: js_add.simps js_mul.simps)
  have d: "total (checkoutSummary ?pf [?i3, ?i2, ?i1]) = Num 5000"
    by (simp add: checkoutSummary_def Let_def tr)
  have e: "deliveryCharges (checkoutSummary ?pf [?i3, ?i2, ?i1]) = Num 200"
    by (simp add: checkoutSummary_def Let_def tr)
  from x d1 d2 d3 y a b c d e show ?thesis by (simp only: simp_thms)
qed

text \<open>
  Claim C2, amended: the arithmetic is that of doubles. For every list of cart items the
  subtotal is the sum of the products of parsed price and quantity, the products rounded
  and added from left to right with each partial sum rounded; the GST is the rounded
  product of the subtotal and the double \<open>0.18\<close>; the delivery charges are 0 when the
  computed subtotal is above 5000 and 200 otherwise (200 at exactly 5000, and 200 when
  the subtotal is \<open>NaN\<close>, a price that does not parse); and the final total is subtotal
  plus GST plus delivery charges, each sum rounded.
\<close>

theorem C2_checkout_total:
  "total (checkoutSummary pf items)
      = js_sum (map (\<lambda>item. js_mul (item_price pf item) (item_quantity item)) items)
   \<and> gst (checkoutSummary pf items)
      = js_mul (total (checkoutSummary pf items)) (binary64 (18 / 100))
   \<and> (\<forall>s. total (checkoutSummary pf items) = Num s \<longrightarrow>
          deliveryCharges (checkoutSummary pf items) = (if 5000 < s then Num 0 else Num 200))
   \<and> (total (checkoutSummary pf items) = Num 5000 \<longrightarrow>
          deliveryCharges (checkoutSummary pf items) = Num 200)
   \<and> (total (checkoutSummary pf items) = PInf \<longrightarrow>
          deliveryCharges (checkoutSummary pf items) = Num 0)
   \<and> (total (checkoutSummary pf items) = NaN \<or> total (checkoutSummary pf items) = NInf \<longrightarrow>
          deliveryCharges (checkoutSummary pf items) = Num 200)
   \<and> (total (checkoutSummary pf items) = NaN \<longrightarrow>
          gst (checkoutSummary pf items) = NaN \<and> finalTotal (checkoutSummary pf items) = NaN)
   \<and> finalTotal (checkoutSummary pf items)
        = js_add (js_add (total (checkoutSummary pf items)) (gst (checkoutSummary pf items)))
            (deliveryCharges (checkoutSummary pf items))"
proof -
  have t: "total (checkoutSummary pf items)
      = js_sum (map (\<lambda>item. js_mul (item_price pf item) (item_quantity item)) items)"
    by (simp add: checkoutSummary_def Let_def calculateTotal_js_sum)
  have g: "gst (checkoutSummary pf items)
      = js_mul (total (checkoutSummary pf items)) (binary64 (18 / 100))"
    by (simp add: checkoutSummary_def Let_def)
  have d: "deliveryCharges (checkoutSummary pf items)
      = (if js_gt (total (checkoutSummary pf items)) (Num 5000) then Num 0 else Num 200)"
    by (simp add: checkoutSummary_def Let_def)
  have f: "finalTotal (checkoutSummary pf items)
        = js_add (js_add (total (checkoutSummary pf items)) (gst (checkoutSummary pf items)))
            (deliveryCharges (checkoutSummary pf items))"
    by (simp add: checkoutSummary_def Let_def)
  have d1: "\<forall>s. total (checkoutSummary pf items) = Num s \<longrightarrow>
          deliveryCharges (checkoutSummary pf items) = (if 5000 < s then Num 0 else Num 200)"
    using d by simp
  have d2: "total (checkoutSummary pf items) = Num 5000 \<longrightarrow>
          deliveryCharges (checkoutSummary pf items) = Num 200"
    using d by simp
  have d3: "total (checkoutSummary pf items) = PInf \<longrightarrow>
          deliveryCharges (checkoutSummary pf items) = Num 0"
    using d by (simp add: js_gt_def)
  have d4: "total (checkoutSummary pf items) = NaN \<or> total (checkoutSummary pf items) = NInf \<longrightarrow>
          deliveryCharges (checkoutSummary pf items) = Num 200"
    using d by (auto simp add: js_gt_def)
  have n: "total (checkoutSummary pf items) = NaN \<longrightarrow>
          gst (checkoutSummary pf items) = NaN \<and> finalTotal (checkoutSummary pf items) = NaN"
    using g f by simp
  from t g d1 d2 d3 d4 n f show ?thesis by (simp only: simp_thms)
qed

theorem C2_checkout_total_witness:
  "total (checkoutSummary (\<lambda>s. NaN)
      [\<lparr> item_id = 3, price = PriceNumber (Num 2500), item_quantity = Num 2 \<rparr>]) = Num 5000
   \<and> gst (checkoutSummary (\<lambda>s. NaN)
      [\<lparr> item_id = 3, price = PriceNumber (Num 2500), item_quantity = Num 2 \<rparr>]) = Num 900
   \<and> deliveryCharges (checkoutSummary (\<lambda>s. NaN)
      [\<lparr> item_id = 3, price = PriceNumber (Num 2500), item_quantity = Num 2 \<rparr>]) = Num 200
   \<and> finalTotal (checkoutSummary (\<lambda>s. NaN)
      [\<lparr> item_id = 3, price = PriceNumber (Num 2500), item_quantity = Num 2 \<rparr>]) = Num 6100
   \<and> total (checkoutSummary (\<lambda>s. NaN)
      [\<lparr> item_id = 4, price = PriceString [0x20B9, 0x33, 0x31], item_quantity = Num 100 \<rparr>]) = NaN
   \<and> deliveryCharges (checkoutSummary (\<lambda>s. NaN)
      [\<lparr> item_id = 4, price = PriceString [0x20B9, 0x33, 0x31], item_quantity = Num 100 \<rparr>]) = Num 200
   \<and> finalTotal (checkoutSummary (\<lambda>s. NaN)
      [\<lparr> item_id = 4, price = PriceString [0x20B9, 0x33, 0x31], item_quantity = Num 100 \<rparr>]) = NaN"
proof -
  let ?nan = "\<lambda>s :: jsstring. NaN"
  let ?c = "[\<lparr> item_id = 3, price = PriceNumber (Num 2500), item_quantity = Num 2 \<rparr>]"
  let ?d = "[\<lparr> item_id = 4, price = PriceString [0x20B9, 0x33, 0x31], item_quantity = Num 100 \<rparr>]"
  note tc = C2_checkout_total [of ?nan ?c]
  note td = C2_checkout_total [of ?nan ?d]
  have wm1: "js_mul (Num 2500) (Num 2) = Num 5000"
    using binary64_normal [of "12" "2500 * 2"] by (simp add: roundTiesToEven_def)
  have ws1: "js_add (Num 0) (Num 5000) = Num 5000"
    using binary64_normal [of "12" "0 + 5000"] by (simp add: roundTiesToEven_def)
  have c18: "binary64 (9 / 50) = Num (3242591731706757 / 18014398509481984)"
    using binary64_normal [of "- 3" "9 / 50"] by (simp add: roundTiesToEven_def)
  have wg: "js_mul (Num 5000) (Num (3242591731706757 / 18014398509481984)) = Num 900"
    using binary64_normal [of "9" "5000 * (3242591731706757 / 18014398509481984)"] by (simp add: roundTiesToEven_def)
  have wf1: "js_add (Num 5000) (Num 900) = Num 5900"
    using binary64_normal [of "12" "5000 + 900"] by (simp add: roundTiesToEven_def)
  have wf2: "js_add (Num 5900) (Num 200) = Num 6100"
    using binary64_normal [of "12" "5900 + 200"] by (simp add: roundTiesToEven_def)
  have "total (checkoutSummary ?nan ?c)
      = js_sum (map (\<lambda>item. js_mul (item_price ?nan item) (item_quantity item)) ?c)"
    using tc by (rule conjunct1)
  then have c1: "total (checkoutSummary ?nan ?c) = Num 5000"
    by (simp add: js_sum_def item_price_def wm1 ws1 del: js_add.simps js_mul.simps)
  have "gst (checkoutSummary ?nan ?c)
      = js_mul (total (checkoutSummary ?nan ?c)) (binary64 (18 / 100))"
    using tc by simp
  then have c2: "gst (checkoutSummary ?nan ?c) = Num 900"
    by (simp add: c1 c18 wg del: js_add.simps js_mul.simps)
  have c3: "deliveryCharges (checkoutSummary ?nan ?c) = Num 200"
    using tc c1 by simp
  have "finalTotal (checkoutSummary ?nan ?c)
        = js_add (js_add (total (checkoutSummary ?nan ?c)) (gst (checkoutSummary ?nan ?c)))
            (deliveryCharges (checkoutSummary ?nan ?c))"
    using tc by simp
  then have c4: "finalTotal (checkoutSummary ?nan ?c) = Num 6100"
    by (simp add: c1 c2 c3 wf1 wf2 del: js_add.simps js_mul.simps)
  have "total (checkoutSummary ?nan ?d)
      = js_sum (map (\<lambda>item. js_mul (item_price ?nan item) (item_quantity item)) ?d)"
    using td by (rule conjunct1)
  then have e1: "total (checkoutSummary ?nan ?d) = NaN"
    by (simp add: js_sum_def item_price_def)
  have e2: "deliveryCharges (checkoutSummary ?nan ?d) = Num 200"
    using td e1 by simp
  have e3: "finalTotal (checkoutSummary ?nan ?d) = NaN"
    using td e1 by simp
  from c1 c2 c3 c4 e1 e2 e3 show ?thesis by (simp only: simp_thms)
qed

section \<open>Input sanitization (lib/security.ts)\<close>

text \<open>
  The table \<open>htmlEntities\<close>, keyed by the characters \<open>& < > " ' /\<close> (code units 0x26,
  0x3C, 0x3E, 0x22, 0x27, 0x2F); \<open>None\<close> is \<open>undefined\<close>.
\<close>

definition htmlEntities :: "(16 word \<times> jsstring) list" where
  "htmlEntities =
     [ (0x26, js ''&amp;''),
       (0x3C, js ''&lt;''),
       (0x3E, js ''&gt;''),
       (0x22, js ''&quot;''),
       (0x27, js ''&#x27;''),
       (0x2F, js ''&#x2F;'') ]"

definition html_special :: "16 word \<Rightarrow> bool" where
  \<comment> \<open>the character class of the pattern \<open>/[&<>"'/]/g\<close>\<close>
  "html_special c \<longleftrightarrow> c \<in> {0x26, 0x3C, 0x3E, 0x22, 0x27, 0x2F}"

definition replaceChar :: "16 word \<Rightarrow> jsstring" where
  \<comment> \<open>the callback \<open>(char) => htmlEntities[char] || char\<close>\<close>
  "replaceChar c =
     (case map_of htmlEntities c of
        None \<Rightarrow> [c]
      | Some e \<Rightarrow> if e = [] then [c] else e)"

definition sanitizeHtml :: "jsstring \<Rightarrow> jsstring" where
  \<comment> \<open>a global replace: every match of the class is replaced, the rest is copied\<close>
  "sanitizeHtml input = concat (map (\<lambda>c. if html_special c then replaceChar c else [c]) input)"

text \<open>The replacement in the words of the specification.\<close>

definition entity_of :: "16 word \<Rightarrow> jsstring" where
  "entity_of c =
     (if c = 0x26 then js ''&amp;''
      else if c = 0x3C then js ''&lt;''
      else if c = 0x3E then js ''&gt;''
      else if c = 0x22 then js ''&quot;''
      else if c = 0x27 then js ''&#x27;''
      else if c = 0x2F then js ''&#x2F;''
      else [c])"

definition entities :: "jsstring list" where
  "entities = [js ''&amp;'', js ''&lt;'', js ''&gt;'', js ''&quot;'', js ''&#x27;'', js ''&#x2F;'']"

lemma piece_eq_entity_of: "(if html_special c then replaceChar c else [c]) = entity_of c"
  by (simp add: html_special_def replaceChar_def htmlEntities_def entity_of_def js_def)

lemma sanitizeHtml_eq: "sanitizeHtml s = concat (map entity_of s)"
  by (simp add: sanitizeHtml_def piece_eq_entity_of)

lemma entity_of_no_raw: "set (entity_of c) \<inter> {0x3C, 0x3E, 0x22, 0x27, 0x2F} = {}"
  by (simp add: entity_of_def js_def)

lemma entity_of_amp:
  assumes "i < length (entity_of c)" "entity_of c ! i = 0x26"
  shows "i = 0 \<and> entity_of c \<in> set entities"
proof -
  consider "c = 0x26" | "c = 0x3C" | "c = 0x3E" | "c = 0x22" | "c = 0x27" | "c = 0x2F"
    | "c \<notin> {0x26, 0x3C, 0x3E, 0x22, 0x27, 0x2F}" by blast
  then show ?thesis
  proof cases
    case 7
    with assms show ?thesis by (simp add: entity_of_def)
  qed (use assms in \<open>auto simp: entity_of_def entities_def js_def nth_Cons' split: if_splits\<close>)
qed

lemma sanitizeHtml_no_raw: "set (sanitizeHtml s) \<inter> {0x3C, 0x3E, 0x22, 0x27, 0x2F} = {}"
proof -
  have "set (sanitizeHtml s) = (\<Union>c \<in> set s. set (entity_of c))"
    by (simp add: sanitizeHtml_eq)
  then show ?thesis using entity_of_no_raw by blast
qed

lemma sanitizeHtml_amp:
  "i < length (sanitizeHtml s) \<Longrightarrow> sanitizeHtml s ! i = 0x26
     \<Longrightarrow> \<exists>e \<in> set entities. prefix e (drop i (sanitizeHtml s))"
proof (induction s arbitrary: i)
  case Nil
  then show ?case by (simp add: sanitizeHtml_eq)
next
  case (Cons c s)
  have out: "sanitizeHtml (c # s) = entity_of c @ sanitizeHtml s"
    by (simp add: sanitizeHtml_eq)
  show ?case
  proof (cases "i < length (entity_of c)")
    case True
    with Cons.prems have "entity_of c ! i = 0x26" by (simp add: out nth_append)
    with True have "i = 0" and e: "entity_of c \<in> set entities" using entity_of_amp by blast+
    then have "prefix (entity_of c) (drop i (sanitizeHtml (c # s)))" by (simp add: out)
    with e show ?thesis by blast
  next
    case False
    with Cons.prems have "i - length (entity_of c) < length (sanitizeHtml s)"
      and "sanitizeHtml s ! (i - length (entity_of c)) = 0x26"
      by (simp_all add: out nth_append)
    from Cons.IH [OF this] obtain e where "e \<in> set entities"
      and "prefix e (drop (i - length (entity_of c)) (sanitizeHtml s))" by blast
    moreover have "drop i (sanitizeHtml (c # s)) = drop (i - length (entity_of c)) (sanitizeHtml s)"
      using False by (simp add: out)
    ultimately show ?thesis by metis
  qed
qed

text \<open>
  Claim C6. For every input string, \<open>sanitizeHtml\<close> replaces each of the six characters
  \<open>& < > " ' /\<close> by its entity and copies every other character; the output contains no
  raw \<open><\<close>, \<open>>\<close>, \<open>"\<close>, \<open>'\<close> or \<open>/\<close>, and at every position of the output that holds
  \<open>&\<close> one of the six entities begins.
\<close>

theorem C6_sanitizeHtml_entities:
  "sanitizeHtml s = concat (map entity_of s)
   \<and> set (sanitizeHtml s) \<inter> {0x3C, 0x3E, 0x22, 0x27, 0x2F} = {}
   \<and> (\<forall>i < length (sanitizeHtml s). sanitizeHtml s ! i = 0x26 \<longrightarrow>
         (\<exists>e \<in> set entities. prefix e (drop i (sanitizeHtml s))))"
proof (intro conjI allI impI)
  show "sanitizeHtml s = concat (map entity_of s)"
    by (rule sanitizeHtml_eq)
  show "set (sanitizeHtml s) \<inter> {0x3C, 0x3E, 0x22, 0x27, 0x2F} = {}"
    by (rule sanitizeHtml_no_raw)
  fix i
  assume "i < length (sanitizeHtml s)" and "sanitizeHtml s ! i = 0x26"
  then show "\<exists>e \<in> set entities. prefix e (drop i (sanitizeHtml s))"
    by (rule sanitizeHtml_amp)
qed

theorem C6_sanitizeHtml_entities_witness:
  "sanitizeHtml (js ''<b>Q&A'') = js ''&lt;b&gt;Q&amp;A''
   \<and> sanitizeHtml (js ''<b>Q&A'') ! 10 = 0x26
   \<and> (\<exists>e \<in> set entities. prefix e (drop 10 (sanitizeHtml (js ''<b>Q&A''))))"
proof -
  have v: "sanitizeHtml (js ''<b>Q&A'') = js ''&lt;b&gt;Q&amp;A''"
    by (simp add: sanitizeHtml_def html_special_def replaceChar_def htmlEntities_def js_def)
  have n: "sanitizeHtml (js ''<b>Q&A'') ! 10 = 0x26"
    unfolding v by (simp add: js_def)
  have l: "10 < length (sanitizeHtml (js ''<b>Q&A''))"
    unfolding v by (simp add: js_def)
  note t = C6_sanitizeHtml_entities [of "js ''<b>Q&A''", THEN conjunct2, THEN conjunct2,
      rule_format, of 10]
  have "\<exists>e \<in> set entities. prefix e (drop 10 (sanitizeHtml (js ''<b>Q&A'')))"
    using l n by (rule t)
  with v n show ?thesis by blast
qed

section \<open>Password validation (lib/security.ts, lib/enterprise-config.ts)\<close>

record password_policy =
  minLength :: nat
  requireUppercase :: bool
  requireLowercase :: bool
  requireNumber :: bool
  requireSpecialChar :: bool

definition passwordPolicy :: password_policy where
  \<comment> \<open>\<open>ENTERPRISE_CONFIG.security.passwordPolicy\<close>\<close>
  "passwordPolicy =
     \<lparr> minLength = 8, requireUppercase = True, requireLowercase = True,
       requireNumber = True, requireSpecialChar = True \<rparr>"

datatype strength_level = weak | medium | strong | very_strong

datatype password_error =
    MinLengthError nat  \<comment> \<open>"Password must be at least \<open>minLength\<close> characters"\<close>
  | UppercaseError      \<comment> \<open>"Password must contain at least one uppercase letter"\<close>
  | LowercaseError      \<comment> \<open>"Password must contain at least one lowercase letter"\<close>
  | NumberError         \<comment> \<open>"Password must contain at least one number"\<close>
  | SpecialCharError    \<comment> \<open>"Password must contain at least one special character"\<close>

record PasswordValidationResult =
  isValid :: bool
  errors :: "password_error list"
  strength :: strength_level
  score :: nat

text \<open>The four unanchored character-class tests: some code unit of the string is in the class.\<close>

definition has_uppercase :: "jsstring \<Rightarrow> bool" where
  \<comment> \<open>\<open>/[A-Z]/.test(password)\<close>\<close>
  "has_uppercase password = list_ex (\<lambda>c. 0x41 \<le> c \<and> c \<le> 0x5A) password"

definition has_lowercase :: "jsstring \<Rightarrow> bool" where
  \<comment> \<open>\<open>/[a-z]/.test(password)\<close>\<close>
  "has_lowercase password = list_ex (\<lambda>c. 0x61 \<le> c \<and> c \<le> 0x7A) password"

definition has_number :: "jsstring \<Rightarrow> bool" where
  \<comment> \<open>\<open>/[0-9]/.test(password)\<close>\<close>
  "has_number password = list_ex (\<lambda>c. 0x30 \<le> c \<and> c \<le> 0x39) password"

definition special_chars :: jsstring where
  \<comment> \<open>the class \<open>[!@#$%^&*(),.?":{}|<>]\<close>; 0x22 is the double quote\<close>
  "special_chars = js ''!@#$%^&*(),.?'' @ [0x22] @ js '':{}|<>''"

definition has_special :: "jsstring \<Rightarrow> bool" where
  "has_special password = list_ex (\<lambda>c. c \<in> set special_chars) password"

text \<open>
  The function threads two variables, \<open>errors\<close> and \<open>score\<close>, through five checks. The
  length check is the first \<open>if\<close> of the source; the four character-class checks have one
  shape, \<open>if (required && !present) errors.push(e) else if (present) score += 1\<close>.
\<close>

definition lengthCheck :: "jsstring \<Rightarrow> password_error list \<times> nat \<Rightarrow> password_error list \<times> nat" where
  "lengthCheck password = (\<lambda>(errors, score).
     if length password < minLength passwordPolicy
     then (errors @ [MinLengthError (minLength passwordPolicy)], score)
     else (errors, score + 1 + (if length password \<ge> 12 then 1 else 0)
                             + (if length password \<ge> 16 then 1 else 0)))"

definition classCheck ::
  "bool \<Rightarrow> bool \<Rightarrow> password_error \<Rightarrow> password_error list \<times> nat \<Rightarrow> password_error list \<times> nat" where
  "classCheck required present e = (\<lambda>(errors, score).
     if required \<and> \<not> present then (errors @ [e], score)
     else if present then (errors, score + 1)
     else (errors, score))"

definition checks :: "jsstring \<Rightarrow> password_error list \<times> nat" where
  "checks password =
     classCheck (requireSpecialChar passwordPolicy) (has_special password) SpecialCharError
       (classCheck (requireNumber passwordPolicy) (has_number password) NumberError
         (classCheck (requireLowercase passwordPolicy) (has_lowercase password) LowercaseError
           (classCheck (requireUppercase passwordPolicy) (has_uppercase password) UppercaseError
             (lengthCheck password ([], 0)))))"

definition validatePassword :: "jsstring \<Rightarrow> PasswordValidationResult" where
  "validatePassword password =
    (let (errors, score) = checks password;
         strength =
           (if score \<le> 2 then weak
            else if score \<le> 4 then medium
            else if score \<le> 6 then strong
            else very_strong)
     in \<lparr> isValid = (length errors = 0), errors = errors, strength = strength,
          score = score \<rparr>)"

lemma snd_classCheck: "snd (classCheck r p e st) = snd st + (if p then 1 else 0)"
  by (cases st) (simp add: classCheck_def)

lemma fst_classCheck_Nil: "fst (classCheck r p e st) = [] \<longleftrightarrow> fst st = [] \<and> (r \<longrightarrow> p)"
  by (cases st) (auto simp add: classCheck_def)

lemma snd_lengthCheck:
  "snd (lengthCheck pw ([], 0)) =
     (if 8 \<le> length pw then 1 else 0) + (if 12 \<le> length pw then 1 else 0)
       + (if 16 \<le> length pw then 1 else 0)"
  by (simp add: lengthCheck_def passwordPolicy_def)

lemma fst_lengthCheck_Nil: "fst (lengthCheck pw ([], 0)) = [] \<longleftrightarrow> 8 \<le> length pw"
  by (auto simp add: lengthCheck_def passwordPolicy_def)

lemma snd_checks:
  "snd (checks pw) =
       (if 8 \<le> length pw then 1 else 0) + (if 12 \<le> length pw then 1 else 0)
     + (if 16 \<le> length pw then 1 else 0)
     + (if has_uppercase pw then 1 else 0) + (if has_lowercase pw then 1 else 0)
     + (if has_number pw then 1 else 0) + (if has_special pw then 1 else 0)"
  unfolding checks_def snd_classCheck snd_lengthCheck by (rule refl)

lemma fst_checks_Nil:
  "fst (checks pw) = [] \<longleftrightarrow>
     8 \<le> length pw \<and> has_uppercase pw \<and> has_lowercase pw \<and> has_number pw \<and> has_special pw"
  unfolding checks_def fst_classCheck_Nil fst_lengthCheck_Nil
  by (simp add: passwordPolicy_def)

lemma score_validatePassword: "score (validatePassword pw) = snd (checks pw)"
  by (simp add: validatePassword_def Let_def split_beta)

lemma isValid_validatePassword: "isValid (validatePassword pw) \<longleftrightarrow> fst (checks pw) = []"
  by (simp add: validatePassword_def Let_def split_beta)

lemma strength_validatePassword:
  "strength (validatePassword pw) =
     (if snd (checks pw) \<le> 2 then weak
      else if snd (checks pw) \<le> 4 then medium
      else if snd (checks pw) \<le> 6 then strong
      else very_strong)"
  by (simp add: validatePassword_def Let_def split_beta)

lemma snd_checks_le_7: "snd (checks pw) \<le> 7"
  unfolding snd_checks by (simp split: if_splits)

lemma strength_cases:
  fixes n :: nat
  assumes "n \<le> 7"
  defines "s \<equiv> (if n \<le> 2 then weak else if n \<le> 4 then medium
                   else if n \<le> 6 then strong else very_strong)"
  shows "(s = weak \<longleftrightarrow> n \<le> 2) \<and> (s = medium \<longleftrightarrow> 3 \<le> n \<and> n \<le> 4)
       \<and> (s = strong \<longleftrightarrow> 5 \<le> n \<and> n \<le> 6) \<and> (s = very_strong \<longleftrightarrow> n = 7)"
  using assms by auto

text \<open>
  Claim C7. For every password, \<open>isValid\<close> is true exactly when the password has at least
  8 code units and contains an uppercase letter, a lowercase letter, a digit and a special
  character of \<open>!@#$%^&*(),.?":{}|<>\<close>; the score is the sum of one point for each length
  threshold 8, 12 and 16 that is reached and one point for each of the four classes that
  is present, hence between 0 and 7; and the strength is weak exactly for a score of at
  most 2, medium for 3 or 4, strong for 5 or 6 and very-strong for 7.
\<close>

theorem C7_validatePassword:
  "(isValid (validatePassword pw) \<longleftrightarrow>
     8 \<le> length pw \<and> has_uppercase pw \<and> has_lowercase pw \<and> has_number pw \<and> has_special pw)
   \<and> score (validatePassword pw) =
       (if 8 \<le> length pw then 1 else 0) + (if 12 \<le> length pw then 1 else 0)
     + (if 16 \<le> length pw then 1 else 0)
     + (if has_uppercase pw then 1 else 0) + (if has_lowercase pw then 1 else 0)
     + (if has_number pw then 1 else 0) + (if has_special pw then 1 else 0)
   \<and> score (validatePassword pw) \<le> 7
   \<and> (strength (validatePassword pw) = weak \<longleftrightarrow> score (validatePassword pw) \<le> 2)
   \<and> (strength (validatePassword pw) = medium \<longleftrightarrow>
        3 \<le> score (validatePassword pw) \<and> score (validatePassword pw) \<le> 4)
   \<and> (strength (validatePassword pw) = strong \<longleftrightarrow>
        5 \<le> score (validatePassword pw) \<and> score (validatePassword pw) \<le> 6)
   \<and> (strength (validatePassword pw) = very_strong \<longleftrightarrow> score (validatePassword pw) = 7)"
proof -
  have a: "isValid (validatePassword pw) \<longleftrightarrow>
     8 \<le> length pw \<and> has_uppercase pw \<and> has_lowercase pw \<and> has_number pw \<and> has_special pw"
    by (simp only: isValid_validatePassword fst_checks_Nil)
  have b: "score (validatePassword pw) =
       (if 8 \<le> length pw then 1 else 0) + (if 12 \<le> length pw then 1 else 0)
     + (if 16 \<le> length pw then 1 else 0)
     + (if has_uppercase pw then 1 else 0) + (if has_lowercase pw then 1 else 0)
     + (if has_number pw then 1 else 0) + (if has_special pw then 1 else 0)"
    by (simp only: score_validatePassword snd_checks)
  have c: "score (validatePassword pw) \<le> 7"
    by (simp only: score_validatePassword snd_checks_le_7)
  have d: "(strength (validatePassword pw) = weak \<longleftrightarrow> score (validatePassword pw) \<le> 2)
   \<and> (strength (validatePassword pw) = medium \<longleftrightarrow>
        3 \<le> score (validatePassword pw) \<and> score (validatePassword pw) \<le> 4)
   \<and> (strength (validatePassword pw) = strong \<longleftrightarrow>
        5 \<le> score (validatePassword pw) \<and> score (validatePassword pw) \<le> 6)
   \<and> (strength (validatePassword pw) = very_strong \<longleftrightarrow> score (validatePassword pw) = 7)"
    unfolding strength_validatePassword score_validatePassword
    by (rule strength_cases) (rule snd_checks_le_7)
  from a b c d show ?thesis by blast
qed

theorem C7_validatePassword_witness:
  "validatePassword (js ''Abcdef1!'')
     = \<lparr> isValid = True, errors = [], strength = strong, score = 5 \<rparr>
   \<and> isValid (validatePassword (js ''Abcdef1!''))
   \<and> \<not> isValid (validatePassword (js ''abcdefghijkl''))
   \<and> score (validatePassword (js ''abcdefghijkl'')) = 3
   \<and> strength (validatePassword (js ''abcdefghijkl'')) = medium
   \<and> errors (validatePassword (js ''abc''))
       = [MinLengthError 8, UppercaseError, NumberError, SpecialCharError]"
proof -
  note ev = has_uppercase_def has_lowercase_def has_number_def has_special_def
    special_chars_def js_def
  have a: "validatePassword (js ''Abcdef1!'')
     = \<lparr> isValid = True, errors = [], strength = strong, score = 5 \<rparr>"
    by (simp add: validatePassword_def checks_def classCheck_def lengthCheck_def
        passwordPolicy_def ev)
  have b: "errors (validatePassword (js ''abc''))
       = [MinLengthError 8, UppercaseError, NumberError, SpecialCharError]"
    by (simp add: validatePassword_def checks_def classCheck_def lengthCheck_def
        passwordPolicy_def ev)
  from C7_validatePassword [of "js ''Abcdef1!''"]
  have c: "isValid (validatePassword (js ''Abcdef1!''))"
    by (simp add: ev)
  from C7_validatePassword [of "js ''abcdefghijkl''"]
  have d: "\<not> isValid (validatePassword (js ''abcdefghijkl''))"
      "score (validatePassword (js ''abcdefghijkl'')) = 3"
      "strength (validatePassword (js ''abcdefghijkl'')) = medium"
    by (simp_all add: ev)
  from a b c d show ?thesis by simp
qed

section \<open>Rate limiting (lib/security.ts)\<close>

record RateLimitEntry =
  count :: jsnum
  firstRequest :: jsnum
  lastRequest :: jsnum

record RateLimitResult =
  allowed :: bool
  remaining :: jsnum
  resetTime :: jsnum

type_synonym rateLimitStore = "jsstring \<rightharpoonup> RateLimitEntry"

text \<open>
  \<open>checkRateLimit\<close> reads the clock and reads and writes the module's map. The model takes
  the value of \<open>Date.now()\<close> and the map, and returns the result with the map after the
  call. The limit, the window and the clock value are numbers, and so are the fields of
  an entry: the count is compared with \<open>>=\<close> and incremented with \<open>++\<close>, which adds 1.
\<close>

definition checkRateLimit ::
  "jsnum \<Rightarrow> jsstring \<Rightarrow> jsnum \<Rightarrow> jsnum \<Rightarrow> rateLimitStore \<Rightarrow> RateLimitResult \<times> rateLimitStore" where
  "checkRateLimit now identifier maxRequests windowMs store =
     (let fresh =
            (\<lparr> allowed = True, remaining = js_sub maxRequests (Num 1),
               resetTime = js_add now windowMs \<rparr>,
             store(identifier \<mapsto> \<lparr> count = Num 1, firstRequest = now, lastRequest = now \<rparr>))
      in case store identifier of
           None \<Rightarrow> fresh
         | Some entry \<Rightarrow>
             if js_gt (js_sub now (firstRequest entry)) windowMs then fresh
             else if js_ge (count entry) maxRequests then
               (\<lparr> allowed = False, remaining = Num 0,
                  resetTime = js_add (firstRequest entry) windowMs \<rparr>, store)
             else
               (let entry' = entry \<lparr> count := js_add (count entry) (Num 1), lastRequest := now \<rparr>
                in (\<lparr> allowed = True, remaining = js_sub maxRequests (count entry'),
                      resetTime = js_add (firstRequest entry') windowMs \<rparr>,
                    store(identifier \<mapsto> entry'))))"

text \<open>
  A sequence of calls with the same limit and window, each with its clock value and its
  identifier, threading the map; the results are kept with their identifiers.
\<close>

fun run_calls ::
  "jsnum \<Rightarrow> jsnum \<Rightarrow> (jsnum \<times> jsstring) list \<Rightarrow> rateLimitStore
     \<Rightarrow> (jsstring \<times> RateLimitResult) list \<times> rateLimitStore" where
  "run_calls maxRequests windowMs [] store = ([], store)"
| "run_calls maxRequests windowMs ((now, identifier) # calls) store =
     (let (r, store') = checkRateLimit now identifier maxRequests windowMs store;
          (rs, store'') = run_calls maxRequests windowMs calls store'
      in ((identifier, r) # rs, store''))"

definition allowed_calls :: "jsstring \<Rightarrow> (jsstring \<times> RateLimitResult) list \<Rightarrow> nat" where
  "allowed_calls identifier rs = length (filter (\<lambda>(i, r). i = identifier \<and> allowed r) rs)"

definition expired :: "jsnum \<Rightarrow> jsnum \<Rightarrow> jsnum \<Rightarrow> bool" where
  \<comment> \<open>the test \<open>now - entry.firstRequest > windowMs\<close>\<close>
  "expired now first windowMs = js_gt (js_sub now first) windowMs"

definition opens_window :: "rateLimitStore \<Rightarrow> jsstring \<Rightarrow> jsnum \<Rightarrow> jsnum \<Rightarrow> bool" where
  \<comment> \<open>the condition \<open>!entry || now - entry.firstRequest > windowMs\<close>\<close>
  "opens_window store identifier now windowMs =
     (case store identifier of None \<Rightarrow> True | Some entry \<Rightarrow> expired now (firstRequest entry) windowMs)"

definition in_window :: "jsnum \<Rightarrow> jsnum \<Rightarrow> jsstring \<Rightarrow> (jsnum \<times> jsstring) list \<Rightarrow> bool" where
  \<comment> \<open>every call of the list for the identifier is within \<open>windowMs\<close> of \<open>t0\<close>\<close>
  "in_window t0 windowMs identifier calls =
     list_all (\<lambda>(now, i). i = identifier \<longrightarrow> \<not> expired now t0 windowMs) calls"

text \<open>
  On integers of magnitude up to \<open>2^53\<close>, which covers every value of \<open>Date.now()\<close>, sums
  and differences are exact, and so is the test of the window.
\<close>

lemma js_add_int:
  "\<bar>a + b\<bar> \<le> 2 ^ 53 \<Longrightarrow> js_add (Num (of_int a)) (Num (of_int b)) = Num (of_int (a + b))"
  using binary64_int [of "a + b"] by simp

lemma js_sub_int:
  "\<bar>a - b\<bar> \<le> 2 ^ 53 \<Longrightarrow> js_sub (Num (of_int a)) (Num (of_int b)) = Num (of_int (a - b))"
  using binary64_int [of "a - b"] by simp

lemma expired_int:
  "\<bar>a - b\<bar> \<le> 2 ^ 53 \<Longrightarrow> expired (Num (of_int a)) (Num (of_int b)) (Num x) \<longleftrightarrow> x < of_int (a - b)"
  by (simp only: expired_def js_sub_int js_gt_Num)

lemma checkRateLimit_fresh:
  "opens_window store i now w \<Longrightarrow>
     checkRateLimit now i m w store =
       (\<lparr> allowed = True, remaining = js_sub m (Num 1), resetTime = js_add now w \<rparr>,
        store(i \<mapsto> \<lparr> count = Num 1, firstRequest = now, lastRequest = now \<rparr>))"
  by (auto simp: checkRateLimit_def opens_window_def expired_def Let_def split: option.splits)

lemma checkRateLimit_blocked:
  "store i = Some e \<Longrightarrow> \<not> expired now (firstRequest e) w \<Longrightarrow> js_ge (count e) m \<Longrightarrow>
     checkRateLimit now i m w store =
       (\<lparr> allowed = False, remaining = Num 0, resetTime = js_add (firstRequest e) w \<rparr>, store)"
  by (simp add: checkRateLimit_def expired_def Let_def)

lemma checkRateLimit_counted:
  "store i = Some e \<Longrightarrow> \<not> expired now (firstRequest e) w \<Longrightarrow> \<not> js_ge (count e) m \<Longrightarrow>
     checkRateLimit now i m w store =
       (\<lparr> allowed = True, remaining = js_sub m (js_add (count e) (Num 1)),
          resetTime = js_add (firstRequest e) w \<rparr>,
        store(i \<mapsto> e \<lparr> count := js_add (count e) (Num 1), lastRequest := now \<rparr>))"
  by (simp add: checkRateLimit_def expired_def Let_def)

lemma checkRateLimit_other:
  "j \<noteq> i \<Longrightarrow> snd (checkRateLimit now j m w store) i = store i"
  by (simp add: checkRateLimit_def Let_def split: option.splits)

lemma allowed_calls_Cons:
  "allowed_calls i ((j, r) # rs) = (if j = i \<and> allowed r then 1 else 0) + allowed_calls i rs"
  by (simp add: allowed_calls_def)

text \<open>
  Inside a window, with an integer count \<open>c\<close> stored and an integer limit \<open>M\<close> up to
  \<open>2^53\<close>: at most \<open>M - c\<close> further calls are allowed.
\<close>

lemma run_in_window:
  "store i = Some e \<Longrightarrow> count e = Num (of_int c) \<Longrightarrow> 0 \<le> c \<Longrightarrow> M \<le> 2 ^ 53 \<Longrightarrow>
   in_window (firstRequest e) w i calls \<Longrightarrow>
     int (allowed_calls i (fst (run_calls (Num (of_int M)) w calls store))) \<le> max 0 (M - c)"
proof (induction calls arbitrary: store e c)
  case Nil
  then show ?case by (simp add: allowed_calls_def)
next
  case (Cons call calls)
  let ?m = "Num (of_int M)"
  obtain now j where call: "call = (now, j)" by (cases call)
  obtain r store' where step: "checkRateLimit now j ?m w store = (r, store')"
    by (cases "checkRateLimit now j ?m w store")
  obtain rs store'' where rest: "run_calls ?m w calls store' = (rs, store'')"
    by (cases "run_calls ?m w calls store'")
  have run: "fst (run_calls ?m w (call # calls) store) = (j, r) # rs"
    by (simp add: call step rest)
  have win: "in_window (firstRequest e) w i calls"
    using Cons.prems(5) by (simp add: in_window_def)
  show ?case
  proof (cases "j = i")
    case False
    then have "store' i = Some e"
      using checkRateLimit_other [of j i now ?m w store] step Cons.prems(1) by simp
    with Cons.IH [of store' e c] Cons.prems(2) Cons.prems(3) Cons.prems(4) win
    have "int (allowed_calls i rs) \<le> max 0 (M - c)"
      by (simp add: rest)
    with False show ?thesis by (simp add: run allowed_calls_Cons)
  next
    case True
    then have t: "\<not> expired now (firstRequest e) w"
      using Cons.prems(5) by (simp add: in_window_def call)
    show ?thesis
    proof (cases "M \<le> c")
      case blocked: True
      then have ge: "js_ge (count e) ?m" by (simp add: Cons.prems(2))
      from checkRateLimit_blocked [of store i e now w ?m] Cons.prems(1) t ge step True
      have r: "\<not> allowed r" and s: "store' = store" by auto
      from s Cons.prems(1) have "store' i = Some e" by simp
      with Cons.IH [of store' e c] Cons.prems(2) Cons.prems(3) Cons.prems(4) win
      have "int (allowed_calls i rs) \<le> max 0 (M - c)" by (simp add: rest)
      with r show ?thesis by (simp add: run allowed_calls_Cons)
    next
      case False
      then have lt: "c < M" by simp
      then have nge: "\<not> js_ge (count e) ?m" by (simp add: Cons.prems(2))
      have "\<bar>c + 1\<bar> \<le> 2 ^ 53" using lt Cons.prems(3) Cons.prems(4) by simp
      then have inc: "js_add (count e) (Num 1) = Num (of_int (c + 1))"
        using js_add_int [of c 1] by (simp add: Cons.prems(2))
      let ?e' = "e \<lparr> count := js_add (count e) (Num 1), lastRequest := now \<rparr>"
      from checkRateLimit_counted [of store i e now w ?m] Cons.prems(1) t nge step True
      have r: "allowed r" and s: "store' = store(i \<mapsto> ?e')" by auto
      have 1: "store' i = Some ?e'" by (simp add: s)
      have 2: "count ?e' = Num (of_int (c + 1))" using inc by simp
      have 3: "0 \<le> c + 1" using Cons.prems(3) by simp
      have 4: "in_window (firstRequest ?e') w i calls" using win by simp
      from Cons.IH [of store' ?e' "c + 1"] 1 2 3 Cons.prems(4) 4
      have "int (allowed_calls i rs) \<le> max 0 (M - (c + 1))" by (simp add: rest)
      with lt r True show ?thesis by (simp add: run allowed_calls_Cons)
    qed
  qed
qed

lemma run_window:
  assumes "1 \<le> M" "M \<le> 2 ^ 53" "opens_window store i t0 w" "in_window t0 w i calls"
  shows "int (allowed_calls i (fst (run_calls (Num (of_int M)) w ((t0, i) # calls) store))) \<le> M"
proof -
  let ?m = "Num (of_int M)"
  let ?e = "\<lparr> count = Num 1, firstRequest = t0, lastRequest = t0 \<rparr>"
  let ?store' = "store(i \<mapsto> ?e)"
  obtain rs store'' where rest: "run_calls ?m w calls ?store' = (rs, store'')"
    by (cases "run_calls ?m w calls ?store'")
  have 1: "?store' i = Some ?e" by simp
  have 2: "count ?e = Num (of_int 1)" by simp
  have 3: "in_window (firstRequest ?e) w i calls" using assms(4) by simp
  from run_in_window [of ?store' i ?e 1 M w calls] 1 2 assms(2) 3
  have "int (allowed_calls i (fst (run_calls ?m w calls ?store'))) \<le> max 0 (M - 1)"
    by simp
  then have "int (allowed_calls i rs) \<le> M - 1" using assms(1) by (simp add: rest)
  then show ?thesis
    by (simp add: checkRateLimit_fresh [OF assms(3)] rest allowed_calls_Cons)
qed

lemma run_blocked:
  "store i = Some e \<Longrightarrow> js_ge (count e) m \<Longrightarrow> in_window (firstRequest e) w i calls \<Longrightarrow>
     list_all (\<lambda>(j, r). j = i \<longrightarrow>
                 r = \<lparr> allowed = False, remaining = Num 0,
                       resetTime = js_add (firstRequest e) w \<rparr>)
       (fst (run_calls m w calls store))"
proof (induction calls arbitrary: store)
  case Nil
  then show ?case by simp
next
  case (Cons call calls)
  obtain now j where call: "call = (now, j)" by (cases call)
  obtain r store' where step: "checkRateLimit now j m w store = (r, store')"
    by (cases "checkRateLimit now j m w store")
  obtain rs store'' where rest: "run_calls m w calls store' = (rs, store'')"
    by (cases "run_calls m w calls store'")
  have win: "in_window (firstRequest e) w i calls"
    using Cons.prems(3) by (simp add: in_window_def)
  have keep: "store' i = Some e"
    and r: "j = i \<longrightarrow> r = \<lparr> allowed = False, remaining = Num 0,
                              resetTime = js_add (firstRequest e) w \<rparr>"
  proof -
    show "store' i = Some e"
    proof (cases "j = i")
      case False
      then show ?thesis
        using checkRateLimit_other [of j i now m w store] step Cons.prems(1) by simp
    next
      case True
      then have "\<not> expired now (firstRequest e) w"
        using Cons.prems(3) by (simp add: in_window_def call)
      with checkRateLimit_blocked [of store i e now w m] Cons.prems(1) Cons.prems(2) step True
      show ?thesis by simp
    qed
    show "j = i \<longrightarrow> r = \<lparr> allowed = False, remaining = Num 0,
                            resetTime = js_add (firstRequest e) w \<rparr>"
    proof
      assume "j = i"
      then have "\<not> expired now (firstRequest e) w"
        using Cons.prems(3) by (simp add: in_window_def call)
      with checkRateLimit_blocked [of store i e now w m] Cons.prems(1) Cons.prems(2) step \<open>j = i\<close>
      show "r = \<lparr> allowed = False, remaining = Num 0, resetTime = js_add (firstRequest e) w \<rparr>"
        by simp
    qed
  qed
  from Cons.IH [of store'] keep Cons.prems(2) win r show ?case
    by (simp add: call step rest)
qed

text \<open>
  The counter is a double: at \<open>2^53\<close> adding 1 changes nothing, so with a limit above
  \<open>2^53\<close> a call that finds the count \<open>2^53\<close> is allowed and leaves it there.
\<close>

lemma counter_saturates:
  "js_add (Num (2 ^ 53)) (Num 1) = Num (2 ^ 53)
   \<and> checkRateLimit (Num 20) i (Num (2 ^ 53 + 2)) (Num 60000)
        [i \<mapsto> \<lparr> count = Num (2 ^ 53), firstRequest = Num 0, lastRequest = Num 10 \<rparr>]
      = (\<lparr> allowed = True, remaining = Num 2, resetTime = Num 60000 \<rparr>,
         [i \<mapsto> \<lparr> count = Num (2 ^ 53), firstRequest = Num 0, lastRequest = Num 20 \<rparr>])"
proof -
  have a: "js_add (Num (2 ^ 53)) (Num 1) = Num (2 ^ 53)"
    using binary64_normal [of 53 "2 ^ 53 + 1"] by (simp add: roundTiesToEven_def)
  have b: "js_sub (Num 20) (Num 0) = Num 20"
    using js_sub_int [of 20 0] by simp
  have c: "js_sub (Num (2 ^ 53 + 2)) (Num (2 ^ 53)) = Num 2"
    using binary64_int [of 2] by simp
  have d: "js_add (Num 0) (Num 60000) = Num 60000"
    using js_add_int [of 0 60000] by simp
  show ?thesis
    using a b c d
    by (simp add: checkRateLimit_def Let_def del: js_add.simps js_sub_Num)
qed

text \<open>
  Claim C5, as stated, for every \<open>maxRequests\<close>: at most \<open>maxRequests\<close> calls of a window
  are allowed. With \<open>maxRequests = 0\<close> the call that opens a window is allowed all the
  same, one call more than the limit. With \<open>maxRequests = 1.5\<close> the second call of the
  window finds the count 1 below the limit and is allowed, with \<open>remaining = -0.5\<close>: two
  calls, more than the limit. And the reset time is the rounded sum: for a window of
  \<open>0.1\<close> ms opened at the clock value 1700000000000 it is not the first-request time plus
  the window.
\<close>

theorem C5_limit_counterexample:
  "opens_window Map.empty (js ''ip'') (Num 1000) (Num 60000)
   \<and> in_window (Num 1000) (Num 60000) (js ''ip'') [(Num 1010, js ''ip'')]
   \<and> allowed (fst (checkRateLimit (Num 1000) (js ''ip'') (Num 0) (Num 60000) Map.empty))
   \<and> allowed_calls (js ''ip'')
        (fst (run_calls (Num 0) (Num 60000) [(Num 1000, js ''ip'')] Map.empty)) = 1
   \<and> map snd (fst (run_calls (Num (3 / 2)) (Num 60000)
                     [(Num 1000, js ''ip''), (Num 1010, js ''ip'')] Map.empty))
      = [\<lparr> allowed = True, remaining = Num (1 / 2), resetTime = Num 61000 \<rparr>,
         \<lparr> allowed = True, remaining = Num (- (1 / 2)), resetTime = Num 61000 \<rparr>]
   \<and> allowed_calls (js ''ip'')
        (fst (run_calls (Num (3 / 2)) (Num 60000)
                [(Num 1000, js ''ip''), (Num 1010, js ''ip'')] Map.empty)) = 2
   \<and> resetTime (fst (checkRateLimit (Num 1700000000000) (js ''ip'') (Num 100)
                        (Num (3602879701896397 / 36028797018963968)) Map.empty))
      = Num (3481600000000205 / 2048)
   \<and> (3481600000000205 / 2048 :: real)
        \<noteq> 1700000000000 + 3602879701896397 / 36028797018963968"
proof -
  have s1: "js_sub (Num 0) (Num 1) = Num (- 1)"
    using js_sub_int [of 0 1] by simp
  have s2: "js_add (Num 1000) (Num 60000) = Num 61000"
    using js_add_int [of 1000 60000] by simp
  have s3: "js_sub (Num 1010) (Num 1000) = Num 10"
    using js_sub_int [of 1010 1000] by simp
  have s4: "js_sub (Num (3 / 2)) (Num 1) = Num (1 / 2)"
    using binary64_normal [of "- 1" "3 / 2 - 1"] by (simp add: roundTiesToEven_def)
  have s5: "js_add (Num 1) (Num 1) = Num 2"
    using js_add_int [of 1 1] by simp
  have s6: "js_sub (Num (3 / 2)) (Num 2) = Num (- (1 / 2))"
    using binary64_normal [of "- 1" "3 / 2 - 2"] by (simp add: roundTiesToEven_def)
  have s7: "js_sub (Num 100) (Num 1) = Num 99"
    using js_sub_int [of 100 1] by simp
  have s8: "js_add (Num 1700000000000) (Num (3602879701896397 / 36028797018963968))
              = Num (3481600000000205 / 2048)"
    using binary64_normal [of 40 "1700000000000 + 3602879701896397 / 36028797018963968"]
    by (simp add: roundTiesToEven_def)
  note ev = s1 s2 s3 s4 s5 s6 s7 s8
  have a: "opens_window Map.empty (js ''ip'') (Num 1000) (Num 60000)"
    by (simp add: opens_window_def)
  have b: "in_window (Num 1000) (Num 60000) (js ''ip'') [(Num 1010, js ''ip'')]"
    by (simp add: in_window_def expired_def s3 del: js_sub_Num)
  have c: "allowed (fst (checkRateLimit (Num 1000) (js ''ip'') (Num 0) (Num 60000) Map.empty))"
    by (simp add: checkRateLimit_def)
  have d: "allowed_calls (js ''ip'')
        (fst (run_calls (Num 0) (Num 60000) [(Num 1000, js ''ip'')] Map.empty)) = 1"
    by (simp add: checkRateLimit_def allowed_calls_def)
  have r: "fst (run_calls (Num (3 / 2)) (Num 60000)
                     [(Num 1000, js ''ip''), (Num 1010, js ''ip'')] Map.empty)
      = [(js ''ip'', \<lparr> allowed = True, remaining = Num (1 / 2), resetTime = Num 61000 \<rparr>),
         (js ''ip'', \<lparr> allowed = True, remaining = Num (- (1 / 2)), resetTime = Num 61000 \<rparr>)]"
    by (simp add: checkRateLimit_def Let_def ev del: js_add.simps js_sub_Num)
  have e: "map snd (fst (run_calls (Num (3 / 2)) (Num 60000)
                     [(Num 1000, js ''ip''), (Num 1010, js ''ip'')] Map.empty))
      = [\<lparr> allowed = True, remaining = Num (1 / 2), resetTime = Num 61000 \<rparr>,
         \<lparr> allowed = True, remaining = Num (- (1 / 2)), resetTime = Num 61000 \<rparr>]"
    by (simp only: r list.map snd_conv)
  have f: "allowed_calls (js ''ip'')
        (fst (run_calls (Num (3 / 2)) (Num 60000)
                [(Num 1000, js ''ip''), (Num 1010, js ''ip'')] Map.empty)) = 2"
    by (simp only: r) (simp add: allowed_calls_def)
  have g: "resetTime (fst (checkRateLimit (Num 1700000000000) (js ''ip'') (Num 100)
                        (Num (3602879701896397 / 36028797018963968)) Map.empty))
      = Num (3481600000000205 / 2048)"
    by (simp add: checkRateLimit_def Let_def ev del: js_add.simps js_sub_Num)
  have h: "(3481600000000205 / 2048 :: real)
        \<noteq> 1700000000000 + 3602879701896397 / 36028797018963968"
    by simp
  from a b c d e f g h show ?thesis by (simp only: simp_thms)
qed

text \<open>
  Claim C5, amended: the bound holds for an integer \<open>maxRequests\<close> from 1 to \<open>2^53\<close>, and
  the arithmetic is that of doubles. For an identifier, an integer limit \<open>M\<close> in that
  range and a window \<open>w\<close>: when a call at time \<open>t0\<close> opens a window and the later calls for
  the identifier, interleaved with calls for any other identifiers, are all within \<open>w\<close>
  of \<open>t0\<close> (the test \<open>now - t0 > w\<close> of the code is false), at most \<open>M\<close> of these calls are
  allowed. For every limit \<open>m\<close>: once the stored count has reached \<open>m\<close>, a call inside the
  window, and every further one, returns \<open>allowed = false\<close>, \<open>remaining = 0\<close> and
  \<open>resetTime = firstRequest + w\<close> and leaves the map as it is; and a call more than \<open>w\<close>
  after the first request of the window stores a fresh entry with count 1 and returns
  \<open>allowed = true\<close>, \<open>remaining = m - 1\<close>. Differences and sums are rounded to doubles;
  between integers of magnitude up to \<open>2^53\<close> they are exact.
\<close>

theorem C5_rate_limit_window:
  "(1 \<le> M \<and> M \<le> 2 ^ 53 \<and> opens_window store i t0 w \<and> in_window t0 w i calls \<longrightarrow>
      int (allowed_calls i (fst (run_calls (Num (of_int M)) w ((t0, i) # calls) store))) \<le> M)
   \<and> (store i = Some e \<and> \<not> expired now (firstRequest e) w \<and> js_ge (count e) m \<longrightarrow>
        checkRateLimit now i m w store =
          (\<lparr> allowed = False, remaining = Num 0, resetTime = js_add (firstRequest e) w \<rparr>,
           store))
   \<and> (store i = Some e \<and> js_ge (count e) m \<and> in_window (firstRequest e) w i calls \<longrightarrow>
        list_all (\<lambda>(j, r). j = i \<longrightarrow>
                    r = \<lparr> allowed = False, remaining = Num 0,
                          resetTime = js_add (firstRequest e) w \<rparr>)
          (fst (run_calls m w calls store)))
   \<and> (store i = Some e \<and> expired now (firstRequest e) w \<longrightarrow>
        checkRateLimit now i m w store =
          (\<lparr> allowed = True, remaining = js_sub m (Num 1), resetTime = js_add now w \<rparr>,
           store(i \<mapsto> \<lparr> count = Num 1, firstRequest = now, lastRequest = now \<rparr>)))
   \<and> (\<bar>a - b\<bar> \<le> 2 ^ 53 \<longrightarrow>
        (expired (Num (of_int a)) (Num (of_int b)) (Num x) \<longleftrightarrow> x < of_int (a - b))
        \<and> js_sub (Num (of_int a)) (Num (of_int b)) = Num (of_int (a - b)))
   \<and> (\<bar>a + b\<bar> \<le> 2 ^ 53 \<longrightarrow>
        js_add (Num (of_int a)) (Num (of_int b)) = Num (of_int (a + b)))"
proof (intro conjI impI)
  assume "1 \<le> M \<and> M \<le> 2 ^ 53 \<and> opens_window store i t0 w \<and> in_window t0 w i calls"
  then show "int (allowed_calls i (fst (run_calls (Num (of_int M)) w ((t0, i) # calls) store))) \<le> M"
    using run_window [of M store i t0 w calls] by blast
next
  assume "store i = Some e \<and> \<not> expired now (firstRequest e) w \<and> js_ge (count e) m"
  then show "checkRateLimit now i m w store =
          (\<lparr> allowed = False, remaining = Num 0, resetTime = js_add (firstRequest e) w \<rparr>,
           store)"
    using checkRateLimit_blocked [of store i e now w m] by blast
next
  assume "store i = Some e \<and> js_ge (count e) m \<and> in_window (firstRequest e) w i calls"
  then show "list_all (\<lambda>(j, r). j = i \<longrightarrow>
                    r = \<lparr> allowed = False, remaining = Num 0,
                          resetTime = js_add (firstRequest e) w \<rparr>)
          (fst (run_calls m w calls store))"
    using run_blocked [of store i e m w calls] by blast
next
  assume a: "store i = Some e \<and> expired now (firstRequest e) w"
  then have "opens_window store i now w" by (simp add: opens_window_def)
  then show "checkRateLimit now i m w store =
          (\<lparr> allowed = True, remaining = js_sub m (Num 1), resetTime = js_add now w \<rparr>,
           store(i \<mapsto> \<lparr> count = Num 1, firstRequest = now, lastRequest = now \<rparr>))"
    by (rule checkRateLimit_fresh)
next
  assume "\<bar>a - b\<bar> \<le> 2 ^ 53"
  then show "expired (Num (of_int a)) (Num (of_int b)) (Num x) \<longleftrightarrow> x < of_int (a - b)"
    by (rule expired_int)
next
  assume "\<bar>a - b\<bar> \<le> 2 ^ 53"
  then show "js_sub (Num (of_int a)) (Num (of_int b)) = Num (of_int (a - b))"
    by (rule js_sub_int)
next
  assume "\<bar>a + b\<bar> \<le> 2 ^ 53"
  then show "js_add (Num (of_int a)) (Num (of_int b)) = Num (of_int (a + b))"
    by (rule js_add_int)
qed

theorem C5_rate_limit_window_witness:
  "map (allowed \<circ> snd)
     (fst (run_calls (Num 2) (Num 60000)
        [(Num 0, js ''ip''), (Num 10, js ''ip''), (Num 15, js ''other''), (Num 20, js ''ip''),
         (Num 60000, js ''ip''), (Num 60001, js ''ip'')] Map.empty))
     = [True, True, True, False, False, True]
   \<and> int (allowed_calls (js ''ip'')
        (fst (run_calls (Num 2) (Num 60000)
           [(Num 0, js ''ip''), (Num 10, js ''ip''), (Num 15, js ''other''), (Num 20, js ''ip''),
            (Num 60000, js ''ip'')] Map.empty))) \<le> 2
   \<and> checkRateLimit (Num 20) (js ''ip'') (Num 2) (Num 60000)
        [js ''ip'' \<mapsto> \<lparr> count = Num 2, firstRequest = Num 0, lastRequest = Num 10 \<rparr>]
      = (\<lparr> allowed = False, remaining = Num 0, resetTime = Num 60000 \<rparr>,
         [js ''ip'' \<mapsto> \<lparr> count = Num 2, firstRequest = Num 0, lastRequest = Num 10 \<rparr>])
   \<and> checkRateLimit (Num 60001) (js ''ip'') (Num 2) (Num 60000)
        [js ''ip'' \<mapsto> \<lparr> count = Num 2, firstRequest = Num 0, lastRequest = Num 10 \<rparr>]
      = (\<lparr> allowed = True, remaining = Num 1, resetTime = Num 120001 \<rparr>,
         [js ''ip'' \<mapsto> \<lparr> count = Num 1, firstRequest = Num 60001, lastRequest = Num 60001 \<rparr>])"
proof -
  let ?e = "\<lparr> count = Num 2, firstRequest = Num 0, lastRequest = Num 10 \<rparr>"
  let ?st = "[js ''ip'' \<mapsto> ?e]"
  let ?calls = "[(Num 10, js ''ip''), (Num 15, js ''other''), (Num 20, js ''ip''),
                 (Num 60000, js ''ip'')]"
  note ev = binary64_numeral binary64_one binary64_zero
  have neq: "js ''other'' \<noteq> js ''ip''" by (simp add: js_def)
  have run: "map (allowed \<circ> snd)
     (fst (run_calls (Num 2) (Num 60000)
        [(Num 0, js ''ip''), (Num 10, js ''ip''), (Num 15, js ''other''), (Num 20, js ''ip''),
         (Num 60000, js ''ip''), (Num 60001, js ''ip'')] Map.empty))
     = [True, True, True, False, False, True]"
    using neq by (simp add: checkRateLimit_def Let_def ev)
  have o: "opens_window Map.empty (js ''ip'') (Num 0) (Num 60000)"
    by (simp add: opens_window_def)
  have w: "in_window (Num 0) (Num 60000) (js ''ip'') ?calls"
    by (simp add: in_window_def expired_def ev)
  from C5_rate_limit_window [of 2 Map.empty "js ''ip''" "Num 0" "Num 60000" ?calls] o w
  have a: "int (allowed_calls (js ''ip'')
        (fst (run_calls (Num 2) (Num 60000) ((Num 0, js ''ip'') # ?calls) Map.empty))) \<le> 2"
    by simp
  have x20: "\<not> expired (Num 20) (firstRequest ?e) (Num 60000)"
    by (simp add: expired_def ev)
  have full: "js_ge (count ?e) (Num 2)"
    by simp
  have s: "?st (js ''ip'') = Some ?e"
    by simp
  from C5_rate_limit_window [of 2 ?st "js ''ip''" "Num 0" "Num 60000" "[]" ?e "Num 20" "Num 2"]
       s x20 full
  have "checkRateLimit (Num 20) (js ''ip'') (Num 2) (Num 60000) ?st
      = (\<lparr> allowed = False, remaining = Num 0,
            resetTime = js_add (firstRequest ?e) (Num 60000) \<rparr>, ?st)"
    by blast
  then have b: "checkRateLimit (Num 20) (js ''ip'') (Num 2) (Num 60000) ?st
      = (\<lparr> allowed = False, remaining = Num 0, resetTime = Num 60000 \<rparr>, ?st)"
    by (simp add: ev)
  have x60001: "expired (Num 60001) (firstRequest ?e) (Num 60000)"
    by (simp add: expired_def ev)
  from C5_rate_limit_window [of 2 ?st "js ''ip''" "Num 0" "Num 60000" "[]" ?e "Num 60001" "Num 2"]
       s x60001
  have "checkRateLimit (Num 60001) (js ''ip'') (Num 2) (Num 60000) ?st
      = (\<lparr> allowed = True, remaining = js_sub (Num 2) (Num 1),
            resetTime = js_add (Num 60001) (Num 60000) \<rparr>,
         ?st(js ''ip'' \<mapsto> \<lparr> count = Num 1, firstRequest = Num 60001, lastRequest = Num 60001 \<rparr>))"
    by blast
  then have c: "checkRateLimit (Num 60001) (js ''ip'') (Num 2) (Num 60000) ?st
      = (\<lparr> allowed = True, remaining = Num 1, resetTime = Num 120001 \<rparr>,
         [js ''ip'' \<mapsto> \<lparr> count = Num 1, firstRequest = Num 60001, lastRequest = Num 60001 \<rparr>])"
    by (simp add: ev)
  from run a b c show ?thesis by (simp only: simp_thms)
qed

section \<open>CSRF tokens (lib/security.ts)\<close>

text \<open>
  The environment of the module: whether \<open>window\<close> is defined (a browser), and the two
  Web Storage areas, maps from keys to values where \<open>None\<close> is the \<open>null\<close> of \<open>getItem\<close>.
\<close>

type_synonym storage = "jsstring \<rightharpoonup> jsstring"

record env =
  has_window :: bool
  sessionStorage :: storage
  localStorage :: storage

definition setCSRFToken :: "jsstring \<Rightarrow> env \<Rightarrow> env" where
  "setCSRFToken token e =
     (if has_window e
      then e \<lparr> sessionStorage := (sessionStorage e)(js ''csrf_token'' \<mapsto> token) \<rparr>
      else e)"

definition getCSRFToken :: "env \<Rightarrow> jsstring option" where
  "getCSRFToken e = (if has_window e then sessionStorage e (js ''csrf_token'') else None)"

definition validateCSRFToken :: "jsstring \<Rightarrow> env \<Rightarrow> bool" where
  "validateCSRFToken token e =
     (let storedToken = getCSRFToken e in storedToken \<noteq> None \<and> storedToken = Some token)"

text \<open>
  \<open>Number.prototype.toString(16)\<close> on an integer and \<open>padStart(2, "0")\<close>.
\<close>

definition hexDigit :: "nat \<Rightarrow> 16 word" where
  "hexDigit d = js ''0123456789abcdef'' ! d"

fun toString16_nat :: "nat \<Rightarrow> jsstring" where
  "toString16_nat n =
     (if n < 16 then [hexDigit n] else toString16_nat (n div 16) @ [hexDigit (n mod 16)])"

declare toString16_nat.simps [simp del]

definition toString16 :: "int \<Rightarrow> jsstring" where
  "toString16 n = (if n < 0 then js ''-'' @ toString16_nat (nat (- n)) else toString16_nat (nat n))"

definition padStart :: "nat \<Rightarrow> 16 word \<Rightarrow> jsstring \<Rightarrow> jsstring" where
  "padStart targetLength fill s = replicate (targetLength - length s) fill @ s"

text \<open>
  The two sources of randomness are inputs: \<open>math_random k\<close> is the result of the
  \<open>k\<close>-th call of \<open>Math.random()\<close>, \<open>random_bytes k\<close> the byte that
  \<open>crypto.getRandomValues\<close> puts at index \<open>k\<close> of the array.
\<close>

record random_source =
  math_random :: "nat \<Rightarrow> real"
  random_bytes :: "nat \<Rightarrow> 8 word"

definition generateCSRFToken :: "env \<Rightarrow> random_source \<Rightarrow> jsstring" where
  "generateCSRFToken e rnd =
     (if \<not> has_window e
      then concat (map (\<lambda>k. toString16 \<lfloor>math_random rnd k * 16\<rfloor>) [0..<32])
      else (let array = map (random_bytes rnd) [0..<32]
            in concat (map (\<lambda>byte. padStart 2 0x30 (toString16 (uint byte))) array)))"

definition is_hex :: "16 word \<Rightarrow> bool" where
  "is_hex c \<longleftrightarrow> c \<in> set (js ''0123456789abcdef'')"

lemma is_hex_hexDigit: "d < 16 \<Longrightarrow> is_hex (hexDigit d)"
  unfolding is_hex_def hexDigit_def by (rule nth_mem) (simp add: js_def)

lemma toString16_nat_hex: "list_all is_hex (toString16_nat n)"
proof (induction n rule: toString16_nat.induct)
  case (1 n)
  show ?case
  proof (cases "n < 16")
    case True
    then show ?thesis by (simp add: toString16_nat.simps [of n] is_hex_hexDigit)
  next
    case False
    with 1 show ?thesis by (simp add: toString16_nat.simps [of n] is_hex_hexDigit)
  qed
qed

lemma toString16_nat_length: "n < 256 \<Longrightarrow> length (toString16_nat n) \<le> 2 \<and> toString16_nat n \<noteq> []"
  by (simp add: toString16_nat.simps [of n] toString16_nat.simps [of "n div 16"])

lemma byte_piece:
  fixes b :: "8 word"
  shows "length (padStart 2 0x30 (toString16 (uint b))) = 2"
    and "list_all is_hex (padStart 2 0x30 (toString16 (uint b)))"
proof -
  have "unat b < 2 ^ LENGTH(8)" by (rule unsigned_less)
  then have n: "nat (uint b) < 256" by simp
  have s: "toString16 (uint b) = toString16_nat (nat (uint b))"
    by (simp add: toString16_def)
  have z: "is_hex 0x30" by (simp add: is_hex_def js_def)
  from toString16_nat_length [OF n] show "length (padStart 2 0x30 (toString16 (uint b))) = 2"
    by (simp add: padStart_def s)
  show "list_all is_hex (padStart 2 0x30 (toString16 (uint b)))"
    using z toString16_nat_hex [of "nat (uint b)"]
    by (auto simp add: padStart_def s list_all_iff)
qed

lemma unit_piece:
  fixes r :: real
  assumes "0 \<le> r" "r < 1"
  shows "length (toString16 \<lfloor>r * 16\<rfloor>) = 1" and "list_all is_hex (toString16 \<lfloor>r * 16\<rfloor>)"
proof -
  have lo: "0 \<le> \<lfloor>r * 16\<rfloor>" using assms by simp
  have "r * 16 < 16" using assms by simp
  then have hi: "\<lfloor>r * 16\<rfloor> < 16" by (simp add: floor_less_iff)
  from lo hi have n: "nat \<lfloor>r * 16\<rfloor> < 16" by linarith
  from lo have s: "toString16 \<lfloor>r * 16\<rfloor> = toString16_nat (nat \<lfloor>r * 16\<rfloor>)"
    by (simp add: toString16_def)
  from n show "length (toString16 \<lfloor>r * 16\<rfloor>) = 1"
    by (simp add: s toString16_nat.simps [of "nat \<lfloor>r * 16\<rfloor>"])
  show "list_all is_hex (toString16 \<lfloor>r * 16\<rfloor>)"
    by (simp add: s toString16_nat_hex)
qed

lemma length_concat_const:
  "(\<And>x. x \<in> set xs \<Longrightarrow> length (f x) = k) \<Longrightarrow> length (concat (map f xs)) = k * length xs"
  by (induction xs) simp_all

lemma generate_browser:
  assumes "has_window e"
  shows "length (generateCSRFToken e rnd) = 64" and "list_all is_hex (generateCSRFToken e rnd)"
proof -
  let ?f = "\<lambda>byte :: 8 word. padStart 2 0x30 (toString16 (uint byte))"
  have g: "generateCSRFToken e rnd = concat (map ?f (map (random_bytes rnd) [0..<32]))"
    using assms by (simp add: generateCSRFToken_def)
  have "length (concat (map ?f (map (random_bytes rnd) [0..<32])))
          = 2 * length (map (random_bytes rnd) [0..<32])"
    by (rule length_concat_const) (rule byte_piece(1))
  then show "length (generateCSRFToken e rnd) = 64" by (simp add: g)
  show "list_all is_hex (generateCSRFToken e rnd)"
    unfolding g using byte_piece(2) by (simp add: list_all_iff)
qed

lemma generate_server:
  assumes "\<not> has_window e" "\<And>k. k < 32 \<Longrightarrow> 0 \<le> math_random rnd k \<and> math_random rnd k < 1"
  shows "length (generateCSRFToken e rnd) = 32" and "list_all is_hex (generateCSRFToken e rnd)"
proof -
  let ?f = "\<lambda>k. toString16 \<lfloor>math_random rnd k * 16\<rfloor>"
  have g: "generateCSRFToken e rnd = concat (map ?f [0..<32])"
    using assms(1) by (simp add: generateCSRFToken_def)
  have "length (concat (map ?f [0..<32])) = 1 * length [0..<32]"
    by (rule length_concat_const) (use assms(2) unit_piece(1) in auto)
  then show "length (generateCSRFToken e rnd) = 32" by (simp add: g)
  show "list_all is_hex (generateCSRFToken e rnd)"
  proof -
    have "list_all is_hex (?f k)" if "k \<in> set [0..<32]" for k
      using that assms(2) [of k] unit_piece(2) by simp
    then show ?thesis unfolding g by (simp add: list_all_iff)
  qed
qed

lemma csrf_roundtrip:
  "has_window e \<Longrightarrow> validateCSRFToken u (setCSRFToken t e) \<longleftrightarrow> u = t"
  by (auto simp add: validateCSRFToken_def getCSRFToken_def setCSRFToken_def)

lemma csrf_none: "getCSRFToken e = None \<Longrightarrow> \<not> validateCSRFToken u e"
  by (simp add: validateCSRFToken_def)

text \<open>
  Claim C9. In a browser, after \<open>setCSRFToken(t)\<close> the call \<open>validateCSRFToken(u)\<close> is
  true for \<open>u = t\<close> and false for every other \<open>u\<close>; when no token is stored,
  \<open>validateCSRFToken\<close> is false for every input; and \<open>generateCSRFToken\<close> returns a
  non-empty string of hexadecimal digits: 64 of them from the 32 random bytes in a
  browser, 32 of them elsewhere, where every result of \<open>Math.random()\<close> is in \<open>[0, 1)\<close>.
\<close>

theorem C9_csrf_token:
  "(has_window e \<longrightarrow>
       validateCSRFToken t (setCSRFToken t e)
     \<and> (\<forall>u. u \<noteq> t \<longrightarrow> \<not> validateCSRFToken u (setCSRFToken t e)))
   \<and> (sessionStorage e (js ''csrf_token'') = None \<longrightarrow> \<not> validateCSRFToken u e)
   \<and> (has_window e \<longrightarrow>
         generateCSRFToken e rnd \<noteq> [] \<and> length (generateCSRFToken e rnd) = 64
       \<and> list_all is_hex (generateCSRFToken e rnd))
   \<and> (\<not> has_window e \<and> (\<forall>k < 32. 0 \<le> math_random rnd k \<and> math_random rnd k < 1) \<longrightarrow>
         generateCSRFToken e rnd \<noteq> [] \<and> length (generateCSRFToken e rnd) = 32
       \<and> list_all is_hex (generateCSRFToken e rnd))"
proof (intro conjI impI allI)
  assume "has_window e"
  then show "validateCSRFToken t (setCSRFToken t e)"
    by (simp add: csrf_roundtrip)
next
  fix u' assume "has_window e" and "u' \<noteq> t"
  then show "\<not> validateCSRFToken u' (setCSRFToken t e)"
    by (simp add: csrf_roundtrip)
next
  assume "sessionStorage e (js ''csrf_token'') = None"
  then have "getCSRFToken e = None" by (simp add: getCSRFToken_def)
  then show "\<not> validateCSRFToken u e" by (rule csrf_none)
next
  assume w: "has_window e"
  from generate_browser(1) [OF w, of rnd] show "length (generateCSRFToken e rnd) = 64" .
  then show "generateCSRFToken e rnd \<noteq> []" by auto
  from generate_browser(2) [OF w, of rnd] show "list_all is_hex (generateCSRFToken e rnd)" .
next
  assume a: "\<not> has_window e \<and> (\<forall>k < 32. 0 \<le> math_random rnd k \<and> math_random rnd k < 1)"
  then have l: "length (generateCSRFToken e rnd) = 32"
    using generate_server(1) [of e rnd] by blast
  from l show "length (generateCSRFToken e rnd) = 32" .
  from l show "generateCSRFToken e rnd \<noteq> []" by auto
  from a show "list_all is_hex (generateCSRFToken e rnd)"
    using generate_server(2) [of e rnd] by blast
qed

theorem C9_csrf_token_witness:
  "validateCSRFToken (js ''ab12'')
      (setCSRFToken (js ''ab12'')
         \<lparr> has_window = True, sessionStorage = Map.empty, localStorage = Map.empty \<rparr>)
   \<and> \<not> validateCSRFToken (js ''ab13'')
      (setCSRFToken (js ''ab12'')
         \<lparr> has_window = True, sessionStorage = Map.empty, localStorage = Map.empty \<rparr>)
   \<and> \<not> validateCSRFToken (js ''ab12'')
         \<lparr> has_window = True, sessionStorage = Map.empty, localStorage = Map.empty \<rparr>
   \<and> length (generateCSRFToken
         \<lparr> has_window = True, sessionStorage = Map.empty, localStorage = Map.empty \<rparr>
         \<lparr> math_random = (\<lambda>k. 1 / 2), random_bytes = (\<lambda>k. of_nat (7 * k)) \<rparr>) = 64
   \<and> list_all is_hex (generateCSRFToken
         \<lparr> has_window = False, sessionStorage = Map.empty, localStorage = Map.empty \<rparr>
         \<lparr> math_random = (\<lambda>k. 1 / 2), random_bytes = (\<lambda>k. of_nat (7 * k)) \<rparr>)"
proof -
  let ?b = "\<lparr> has_window = True, sessionStorage = Map.empty, localStorage = Map.empty \<rparr>"
  let ?s = "\<lparr> has_window = False, sessionStorage = Map.empty, localStorage = Map.empty \<rparr>"
  let ?r = "\<lparr> math_random = (\<lambda>k. 1 / 2 :: real), random_bytes = (\<lambda>k. of_nat (7 * k) :: 8 word) \<rparr>"
  have neq: "js ''ab13'' \<noteq> js ''ab12''" by (simp add: js_def)
  from C9_csrf_token [of ?b "js ''ab12''" "js ''ab12''" ?r] neq
  have a: "validateCSRFToken (js ''ab12'') (setCSRFToken (js ''ab12'') ?b)"
    and b: "\<not> validateCSRFToken (js ''ab13'') (setCSRFToken (js ''ab12'') ?b)"
    and c: "\<not> validateCSRFToken (js ''ab12'') ?b"
    and d: "length (generateCSRFToken ?b ?r) = 64"
    by simp_all
  from C9_csrf_token [of ?s "js ''ab12''" "js ''ab12''" ?r]
  have e: "list_all is_hex (generateCSRFToken ?s ?r)"
    by simp
  from a b c d e show ?thesis by simp
qed

section \<open>Checkout form validation (app/checkout/page.tsx)\<close>

subsection \<open>The regular expressions of the form\<close>

text \<open>
  The patterns of \<open>validateForm\<close> are sequences of character classes, each with a
  quantifier, between \<open>^\<close> and \<open>$\<close>. An item is a class with the least and the greatest
  number of repetitions (\<open>None\<close>: unbounded); \<open>RegExp.prototype.test\<close> on such an anchored
  pattern is true exactly when the whole string splits into consecutive runs, one for
  each item, of a length the item admits and of characters in its class.
\<close>

datatype rx_item = Item (cls: "16 word \<Rightarrow> bool") (least: nat) (most: "nat option")

fun rx_test :: "rx_item list \<Rightarrow> jsstring \<Rightarrow> bool" where
  "rx_test [] s = (s = [])"
| "rx_test (Item p lo hi # items) s =
     list_ex (\<lambda>k. list_all p (take k s) \<and> rx_test items (drop k s))
       [lo ..< Suc (case hi of None \<Rightarrow> length s | Some h \<Rightarrow> min h (length s))]"

definition once :: "(16 word \<Rightarrow> bool) \<Rightarrow> rx_item" where "once p = Item p 1 (Some 1)"
definition optional :: "(16 word \<Rightarrow> bool) \<Rightarrow> rx_item" where "optional p = Item p 0 (Some 1)"
definition one_or_more :: "(16 word \<Rightarrow> bool) \<Rightarrow> rx_item" where "one_or_more p = Item p 1 None"
definition between :: "nat \<Rightarrow> nat \<Rightarrow> (16 word \<Rightarrow> bool) \<Rightarrow> rx_item" where
  "between m n p = Item p m (Some n)"

definition is_digit :: "16 word \<Rightarrow> bool" where
  \<comment> \<open>\<open>\d\<close> and \<open>[0-9]\<close>\<close>
  "is_digit c \<longleftrightarrow> 0x30 \<le> c \<and> c \<le> 0x39"

definition is_digit19 :: "16 word \<Rightarrow> bool" where
  \<comment> \<open>\<open>[1-9]\<close>\<close>
  "is_digit19 c \<longleftrightarrow> 0x31 \<le> c \<and> c \<le> 0x39"

definition is_space :: "16 word \<Rightarrow> bool" where
  \<comment> \<open>\<open>\s\<close>: the white space and line terminator code units of ECMAScript\<close>
  "is_space c \<longleftrightarrow>
     c \<in> {0x09, 0x0A, 0x0B, 0x0C, 0x0D, 0x20, 0xA0, 0x1680, 0x2028, 0x2029, 0x202F, 0x205F,
          0x3000, 0xFEFF}
     \<or> (0x2000 \<le> c \<and> c \<le> 0x200A)"

definition not_space_at :: "16 word \<Rightarrow> bool" where
  \<comment> \<open>\<open>[^\s@]\<close>\<close>
  "not_space_at c \<longleftrightarrow> \<not> is_space c \<and> c \<noteq> 0x40"

definition emailRegex :: "rx_item list" where
  \<comment> \<open>\<open>/^[^\s@]+@[^\s@]+\.[^\s@]+$/\<close>\<close>
  "emailRegex =
     [one_or_more not_space_at, once (\<lambda>c. c = 0x40), one_or_more not_space_at,
      once (\<lambda>c. c = 0x2E), one_or_more not_space_at]"

definition phoneRegex :: "rx_item list" where
  \<comment> \<open>\<open>/^\+?[1-9]\d{1,14}$/\<close>\<close>
  "phoneRegex = [optional (\<lambda>c. c = 0x2B), once is_digit19, between 1 14 is_digit]"

definition pincodeRegex :: "rx_item list" where
  \<comment> \<open>\<open>/^[1-9][0-9]{5}$/\<close>\<close>
  "pincodeRegex = [once is_digit19, between 5 5 is_digit]"

definition strip_non_digits :: "jsstring \<Rightarrow> jsstring" where
  \<comment> \<open>\<open>.replace(/\D/g, "")\<close>\<close>
  "strip_non_digits s = filter is_digit s"

subsection \<open>The form and its validator\<close>

record shipping_address =
  firstName :: jsstring
  lastName :: jsstring
  company :: jsstring
  address :: jsstring
  city :: jsstring
  state :: jsstring
  pincode :: jsstring
  phone :: jsstring

record billing_address = shipping_address +
  email :: jsstring

record order_data =
  billingAddress :: billing_address
  shippingAddress :: shipping_address
  sameAsBilling :: bool
  paymentMethod :: jsstring
  specialInstructions :: jsstring
  agreedToTerms :: bool

record checkout_state =
  orderData :: order_data
  error :: "string option"
  activeStep :: nat

definition requiredBillingFields :: "((billing_address \<Rightarrow> jsstring) \<times> string) list" where
  "requiredBillingFields =
     [ (firstName, ''Billing First Name''),
       (lastName, ''Billing Last Name''),
       (address, ''Billing Address''),
       (city, ''Billing City''),
       (state, ''Billing State''),
       (pincode, ''Billing Pincode''),
       (phone, ''Billing Phone''),
       (email, ''Billing Email'') ]"

definition requiredShippingFields :: "((shipping_address \<Rightarrow> jsstring) \<times> string) list" where
  "requiredShippingFields =
     [ (firstName, ''Shipping First Name''),
       (lastName, ''Shipping Last Name''),
       (address, ''Shipping Address''),
       (city, ''Shipping City''),
       (state, ''Shipping State''),
       (pincode, ''Shipping Pincode''),
       (phone, ''Shipping Phone'') ]"

text \<open>
  The two \<open>for\<close> loops: the name of the first required field whose value is falsy, that
  is, the empty string.
\<close>

fun first_missing :: "(('a \<Rightarrow> jsstring) \<times> string) list \<Rightarrow> 'a \<Rightarrow> string option" where
  "first_missing [] a = None"
| "first_missing ((key, label) # required) a =
     (if key a = [] then Some label else first_missing required a)"

text \<open>
  The body of \<open>validateForm\<close> up to its last two lines: the message of the first
  \<open>setError(...); return false\<close> that is reached, \<open>None\<close> when none is.
\<close>

definition validation_error :: "order_data \<Rightarrow> string option" where
  "validation_error od =
     (case first_missing requiredBillingFields (billingAddress od) of
        Some label \<Rightarrow> Some (label @ '' is required.'')
      | None \<Rightarrow>
     (case (if \<not> sameAsBilling od
            then first_missing requiredShippingFields (shippingAddress od) else None) of
        Some label \<Rightarrow> Some (label @ '' is required.'')
      | None \<Rightarrow>
     if \<not> rx_test emailRegex (email (billingAddress od))
     then Some ''Please enter a valid email address for billing.''
     else if \<not> rx_test phoneRegex (strip_non_digits (phone (billingAddress od)))
     then Some ''Please enter a valid phone number for billing (e.g., +919876543210 or 9876543210).''
     else if \<not> sameAsBilling od
             \<and> \<not> rx_test phoneRegex (strip_non_digits (phone (shippingAddress od)))
     then Some ''Please enter a valid phone number for shipping.''
     else if \<not> rx_test pincodeRegex (pincode (billingAddress od))
     then Some ''Please enter a valid 6-digit pincode for billing.''
     else if \<not> sameAsBilling od \<and> \<not> rx_test pincodeRegex (pincode (shippingAddress od))
     then Some ''Please enter a valid 6-digit pincode for shipping.''
     else if \<not> agreedToTerms od
     then Some ''You must agree to the terms and conditions to place an order.''
     else None))"

definition validateForm :: "checkout_state \<Rightarrow> bool \<times> checkout_state" where
  "validateForm st =
     (case validation_error (orderData st) of
        Some message \<Rightarrow> (False, st \<lparr> error := Some message \<rparr>)
      | None \<Rightarrow> (True, st \<lparr> error := None \<rparr>))"

definition continueToPayment :: "checkout_state \<Rightarrow> checkout_state" where
  \<comment> \<open>the \<open>onClick\<close> of the step-1 button: \<open>if (validateForm()) setActiveStep(2)\<close>\<close>
  "continueToPayment st =
     (let (ok, st') = validateForm st in if ok then st' \<lparr> activeStep := 2 \<rparr> else st')"

lemma first_missing_None:
  "first_missing required a = None \<longleftrightarrow> list_all (\<lambda>(key, label). key a \<noteq> []) required"
  by (induction required) (auto split: if_splits)

text \<open>
  The conditions on the required fields in the words of the specification: every
  required billing field is non-empty, and every required shipping field is.
\<close>

definition billing_complete :: "billing_address \<Rightarrow> bool" where
  "billing_complete b \<longleftrightarrow>
     firstName b \<noteq> [] \<and> lastName b \<noteq> [] \<and> address b \<noteq> [] \<and> city b \<noteq> [] \<and> state b \<noteq> []
     \<and> pincode b \<noteq> [] \<and> phone b \<noteq> [] \<and> email b \<noteq> []"

definition shipping_complete :: "shipping_address \<Rightarrow> bool" where
  "shipping_complete a \<longleftrightarrow>
     firstName a \<noteq> [] \<and> lastName a \<noteq> [] \<and> address a \<noteq> [] \<and> city a \<noteq> [] \<and> state a \<noteq> []
     \<and> pincode a \<noteq> [] \<and> phone a \<noteq> []"

lemma billing_missing_None:
  "first_missing requiredBillingFields b = None \<longleftrightarrow> billing_complete b"
  by (simp add: first_missing_None requiredBillingFields_def billing_complete_def)

lemma shipping_missing_None:
  "first_missing requiredShippingFields a = None \<longleftrightarrow> shipping_complete a"
  by (simp add: first_missing_None requiredShippingFields_def shipping_complete_def)

lemma validation_error_None:
  "validation_error od = None \<longleftrightarrow>
     billing_complete (billingAddress od)
   \<and> (\<not> sameAsBilling od \<longrightarrow> shipping_complete (shippingAddress od))
   \<and> rx_test emailRegex (email (billingAddress od))
   \<and> rx_test phoneRegex (strip_non_digits (phone (billingAddress od)))
   \<and> (\<not> sameAsBilling od \<longrightarrow> rx_test phoneRegex (strip_non_digits (phone (shippingAddress od))))
   \<and> rx_test pincodeRegex (pincode (billingAddress od))
   \<and> (\<not> sameAsBilling od \<longrightarrow> rx_test pincodeRegex (pincode (shippingAddress od)))
   \<and> agreedToTerms od"
proof (cases "first_missing requiredBillingFields (billingAddress od)")
  case (Some label)
  then have "\<not> billing_complete (billingAddress od)"
    using billing_missing_None [of "billingAddress od"] by simp
  with Some show ?thesis by (simp add: validation_error_def)
next
  case None
  then have b: "billing_complete (billingAddress od)"
    using billing_missing_None [of "billingAddress od"] by simp
  show ?thesis
  proof (cases "sameAsBilling od")
    case True
    with None b show ?thesis by (simp add: validation_error_def)
  next
    case False
    show ?thesis
    proof (cases "first_missing requiredShippingFields (shippingAddress od)")
      case (Some label)
      then have "\<not> shipping_complete (shippingAddress od)"
        using shipping_missing_None [of "shippingAddress od"] by simp
      with Some None False show ?thesis by (simp add: validation_error_def)
    next
      case n: None
      then have "shipping_complete (shippingAddress od)"
        using shipping_missing_None [of "shippingAddress od"] by simp
      with n None False b show ?thesis by (simp add: validation_error_def)
    qed
  qed
qed


lemma rx_test_Item:
  "rx_test (Item p lo hi # items) s \<longleftrightarrow>
     (\<exists>k. lo \<le> k \<and> k \<le> length s \<and> (case hi of None \<Rightarrow> True | Some h \<Rightarrow> k \<le> h)
          \<and> list_all p (take k s) \<and> rx_test items (drop k s))"
proof -
  let ?n = "case hi of None \<Rightarrow> length s | Some h \<Rightarrow> min h (length s)"
  have mem: "k \<in> set [lo ..< Suc ?n] \<longleftrightarrow>
      lo \<le> k \<and> k \<le> length s \<and> (case hi of None \<Rightarrow> True | Some h \<Rightarrow> k \<le> h)" for k
    by (cases hi) (auto simp del: upt_Suc)
  have "rx_test (Item p lo hi # items) s \<longleftrightarrow>
      (\<exists>k \<in> set [lo ..< Suc ?n]. list_all p (take k s) \<and> rx_test items (drop k s))"
    by (simp only: rx_test.simps list_ex_iff)
  also have "\<dots> \<longleftrightarrow>
     (\<exists>k. lo \<le> k \<and> k \<le> length s \<and> (case hi of None \<Rightarrow> True | Some h \<Rightarrow> k \<le> h)
          \<and> list_all p (take k s) \<and> rx_test items (drop k s))"
    unfolding Bex_def mem by blast
  finally show ?thesis .
qed

declare rx_test.simps(2) [simp del]

lemma rx_test_pincode:
  "rx_test pincodeRegex s \<longleftrightarrow>
     length s = 6 \<and> is_digit19 (s ! 0) \<and> list_all is_digit (drop 1 s)"
proof
  assume "rx_test pincodeRegex s"
  then obtain k k' where k: "1 \<le> k" "k \<le> 1" "k \<le> length s" "list_all is_digit19 (take k s)"
    and k': "5 \<le> k'" "k' \<le> 5" "k' \<le> length (drop k s)" "list_all is_digit (take k' (drop k s))"
      "drop k' (drop k s) = []"
    by (auto simp add: pincodeRegex_def once_def between_def rx_test_Item)
  from k have k1: "k = 1" by simp
  from k' have k5: "k' = 5" by simp
  from k' k1 k5 have len: "length s = 6" by simp
  from k(4) k1 len have "is_digit19 (s ! 0)" by (cases s) auto
  moreover from k'(4) k1 k5 len have "list_all is_digit (drop 1 s)" by simp
  ultimately show "length s = 6 \<and> is_digit19 (s ! 0) \<and> list_all is_digit (drop 1 s)"
    using len by simp
next
  assume a: "length s = 6 \<and> is_digit19 (s ! 0) \<and> list_all is_digit (drop 1 s)"
  then have "list_all is_digit19 (take 1 s)" by (cases s) auto
  moreover have "list_all is_digit (take 5 (drop 1 s))" "drop 5 (drop 1 s) = []"
    "5 \<le> length (drop 1 s)" using a by simp_all
  ultimately show "rx_test pincodeRegex s"
    using a unfolding pincodeRegex_def once_def between_def rx_test_Item
    by (intro exI [of _ 1] exI [of _ 5] conjI) simp_all
qed

lemma rx_test_phone_digits:
  assumes "list_all is_digit d"
  shows "rx_test phoneRegex d \<longleftrightarrow> 2 \<le> length d \<and> length d \<le> 15 \<and> d ! 0 \<noteq> 0x30"
proof
  assume "rx_test phoneRegex d"
  then obtain j k k' where j: "j \<le> 1" "j \<le> length d" "list_all (\<lambda>c. c = 0x2B) (take j d)"
    and k: "1 \<le> k" "k \<le> 1" "k \<le> length (drop j d)" "list_all is_digit19 (take k (drop j d))"
    and k': "1 \<le> k'" "k' \<le> 14" "k' \<le> length (drop k (drop j d))"
      "drop k' (drop k (drop j d)) = []"
    by (auto simp add: phoneRegex_def once_def optional_def between_def rx_test_Item)
  have j0: "j = 0"
  proof (rule ccontr)
    assume "j \<noteq> 0"
    with j have "j = 1" and "d \<noteq> []" by auto
    with j(3) have "d ! 0 = 0x2B" by (cases d) auto
    moreover from assms \<open>d \<noteq> []\<close> have "is_digit (d ! 0)" by (cases d) auto
    ultimately show False by (simp add: is_digit_def)
  qed
  from k have k1: "k = 1" by simp
  from k(3,4) j0 k1 have "is_digit19 (d ! 0)" by (cases d) auto
  then have "d ! 0 \<noteq> 0x30" by (auto simp add: is_digit19_def)
  moreover from k' j0 k1 have "length d = 1 + k'" by simp
  ultimately show "2 \<le> length d \<and> length d \<le> 15 \<and> d ! 0 \<noteq> 0x30"
    using k' by simp
next
  assume a: "2 \<le> length d \<and> length d \<le> 15 \<and> d ! 0 \<noteq> 0x30"
  then obtain c cs where d: "d = c # cs" by (cases d) auto
  with assms a have "is_digit c" "c \<noteq> 0x30" by auto
  then have "is_digit19 c"
    unfolding is_digit_def is_digit19_def by unat_arith
  moreover from assms d have "list_all is_digit cs" by simp
  ultimately show "rx_test phoneRegex d"
    using a unfolding phoneRegex_def once_def optional_def between_def rx_test_Item d
    by (intro exI [of _ 0] exI [of _ 1] exI [of _ "length cs"] conjI) simp_all
qed

text \<open>
  Claim C3. \<open>validateForm\<close> returns true exactly when every required billing field is
  non-empty; with \<open>sameAsBilling\<close> false, every required shipping field is non-empty; the
  billing email matches \<open>emailRegex\<close>; the billing phone, its non-digits removed, matches
  \<open>phoneRegex\<close>, and so does the shipping phone with \<open>sameAsBilling\<close> false; the billing
  pincode matches \<open>pincodeRegex\<close>, and so does the shipping pincode with \<open>sameAsBilling\<close>
  false; and \<open>agreedToTerms\<close> is true. When it returns false the error message is set
  (not null), when it returns true the message is cleared, and nothing else of the state
  changes. The "Continue to Payment" action sets the step to 2 when \<open>validateForm\<close>
  returns true and leaves the step as it is otherwise.
\<close>

theorem C3_validateForm:
  "(fst (validateForm st) \<longleftrightarrow>
       billing_complete (billingAddress (orderData st))
     \<and> (\<not> sameAsBilling (orderData st) \<longrightarrow> shipping_complete (shippingAddress (orderData st)))
     \<and> rx_test emailRegex (email (billingAddress (orderData st)))
     \<and> rx_test phoneRegex (strip_non_digits (phone (billingAddress (orderData st))))
     \<and> (\<not> sameAsBilling (orderData st) \<longrightarrow>
          rx_test phoneRegex (strip_non_digits (phone (shippingAddress (orderData st)))))
     \<and> rx_test pincodeRegex (pincode (billingAddress (orderData st)))
     \<and> (\<not> sameAsBilling (orderData st) \<longrightarrow>
          rx_test pincodeRegex (pincode (shippingAddress (orderData st))))
     \<and> agreedToTerms (orderData st))
   \<and> (\<not> fst (validateForm st) \<longrightarrow> error (snd (validateForm st)) \<noteq> None)
   \<and> (fst (validateForm st) \<longrightarrow> error (snd (validateForm st)) = None)
   \<and> orderData (snd (validateForm st)) = orderData st
   \<and> activeStep (snd (validateForm st)) = activeStep st
   \<and> activeStep (continueToPayment st) = (if fst (validateForm st) then 2 else activeStep st)"
proof (cases "validation_error (orderData st)")
  case None
  then have v: "validateForm st = (True, st \<lparr> error := None \<rparr>)"
    by (simp add: validateForm_def)
  from None validation_error_None [of "orderData st"] v show ?thesis
    by (simp add: continueToPayment_def)
next
  case (Some message)
  then have v: "validateForm st = (False, st \<lparr> error := Some message \<rparr>)"
    by (simp add: validateForm_def)
  from Some validation_error_None [of "orderData st"] v show ?thesis
    by (simp add: continueToPayment_def)
qed

theorem C3_validateForm_witness:
  "fst (validateForm
     \<lparr> orderData =
         \<lparr> billingAddress =
             \<lparr> firstName = js ''Asha'', lastName = js ''Rao'', company = [],
               address = js ''12 MG Road'', city = js ''Mumbai'', state = js ''MH'',
               pincode = js ''400001'', phone = js ''+91 98765-43210'',
               email = js ''asha@jj.in'' \<rparr>,
           shippingAddress =
             \<lparr> firstName = [], lastName = [], company = [], address = [], city = [],
               state = [], pincode = [], phone = [] \<rparr>,
           sameAsBilling = True, paymentMethod = js ''cod'', specialInstructions = [],
           agreedToTerms = True \<rparr>,
       error = Some ''Billing Email is required.'', activeStep = 1 \<rparr>)
   \<and> activeStep (continueToPayment
     \<lparr> orderData =
         \<lparr> billingAddress =
             \<lparr> firstName = js ''Asha'', lastName = js ''Rao'', company = [],
               address = js ''12 MG Road'', city = js ''Mumbai'', state = js ''MH'',
               pincode = js ''400001'', phone = js ''+91 98765-43210'',
               email = js ''asha@jj.in'' \<rparr>,
           shippingAddress =
             \<lparr> firstName = [], lastName = [], company = [], address = [], city = [],
               state = [], pincode = [], phone = [] \<rparr>,
           sameAsBilling = True, paymentMethod = js ''cod'', specialInstructions = [],
           agreedToTerms = True \<rparr>,
       error = Some ''Billing Email is required.'', activeStep = 1 \<rparr>) = 2
   \<and> \<not> fst (validateForm
     \<lparr> orderData =
         \<lparr> billingAddress =
             \<lparr> firstName = js ''Asha'', lastName = js ''Rao'', company = [],
               address = js ''12 MG Road'', city = js ''Mumbai'', state = js ''MH'',
               pincode = js ''040001'', phone = js ''+91 98765-43210'',
               email = js ''asha@jj.in'' \<rparr>,
           shippingAddress =
             \<lparr> firstName = [], lastName = [], company = [], address = [], city = [],
               state = [], pincode = [], phone = [] \<rparr>,
           sameAsBilling = True, paymentMethod = js ''cod'', specialInstructions = [],
           agreedToTerms = True \<rparr>,
       error = None, activeStep = 1 \<rparr>)
   \<and> error (snd (validateForm
     \<lparr> orderData =
         \<lparr> billingAddress =
             \<lparr> firstName = js ''Asha'', lastName = js ''Rao'', company = [],
               address = js ''12 MG Road'', city = js ''Mumbai'', state = js ''MH'',
               pincode = js ''040001'', phone = js ''+91 98765-43210'',
               email = js ''asha@jj.in'' \<rparr>,
           shippingAddress =
             \<lparr> firstName = [], lastName = [], company = [], address = [], city = [],
               state = [], pincode = [], phone = [] \<rparr>,
           sameAsBilling = True, paymentMethod = js ''cod'', specialInstructions = [],
           agreedToTerms = True \<rparr>,
       error = None, activeStep = 1 \<rparr>)) \<noteq> None"
proof -
  let ?ship = "\<lparr> firstName = [], lastName = [], company = [], address = [], city = [],
               state = [], pincode = [], phone = [] \<rparr> :: shipping_address"
  let ?good = "\<lparr> orderData =
         \<lparr> billingAddress =
             \<lparr> firstName = js ''Asha'', lastName = js ''Rao'', company = [],
               address = js ''12 MG Road'', city = js ''Mumbai'', state = js ''MH'',
               pincode = js ''400001'', phone = js ''+91 98765-43210'',
               email = js ''asha@jj.in'' \<rparr>,
           shippingAddress = ?ship,
           sameAsBilling = True, paymentMethod = js ''cod'', specialInstructions = [],
           agreedToTerms = True \<rparr>,
       error = Some ''Billing Email is required.'', activeStep = 1 \<rparr>"
  let ?bad = "\<lparr> orderData =
         \<lparr> billingAddress =
             \<lparr> firstName = js ''Asha'', lastName = js ''Rao'', company = [],
               address = js ''12 MG Road'', city = js ''Mumbai'', state = js ''MH'',
               pincode = js ''040001'', phone = js ''+91 98765-43210'',
               email = js ''asha@jj.in'' \<rparr>,
           shippingAddress = ?ship,
           sameAsBilling = True, paymentMethod = js ''cod'', specialInstructions = [],
           agreedToTerms = True \<rparr>,
       error = None, activeStep = 1 \<rparr>"
  have em: "rx_test emailRegex (js ''asha@jj.in'')"
    by (simp add: rx_test.simps(2) emailRegex_def once_def one_or_more_def is_space_def
        not_space_at_def js_def upt_rec)
  have ph: "rx_test phoneRegex (strip_non_digits (js ''+91 98765-43210''))"
    by (simp add: rx_test.simps(2) phoneRegex_def once_def optional_def between_def
        is_digit_def is_digit19_def strip_non_digits_def js_def upt_rec)
  have p1: "rx_test pincodeRegex (js ''400001'')"
    by (simp add: rx_test_pincode is_digit_def is_digit19_def js_def)
  have p2: "\<not> rx_test pincodeRegex (js ''040001'')"
    by (simp add: rx_test_pincode is_digit_def is_digit19_def js_def)
  have ne: "js ''Asha'' \<noteq> []" "js ''Rao'' \<noteq> []" "js ''12 MG Road'' \<noteq> []" "js ''Mumbai'' \<noteq> []"
      "js ''MH'' \<noteq> []" "js ''400001'' \<noteq> []" "js ''040001'' \<noteq> []"
      "js ''+91 98765-43210'' \<noteq> []" "js ''asha@jj.in'' \<noteq> []"
    by (simp_all add: js_def)
  from C3_validateForm [of ?good] em ph p1 ne
  have g: "fst (validateForm ?good)" "activeStep (continueToPayment ?good) = 2"
    by (simp_all add: billing_complete_def)
  from C3_validateForm [of ?bad] em ph p2 ne
  have b: "\<not> fst (validateForm ?bad)" "error (snd (validateForm ?bad)) \<noteq> None"
    by (simp_all add: billing_complete_def)
  from g b show ?thesis by simp
qed

section \<open>Secure storage (lib/security.ts)\<close>

subsection \<open>The platform functions that \<open>secureStorage\<close> calls\<close>

text \<open>
  \<open>encodeURIComponent\<close>, \<open>unescape\<close>, \<open>btoa\<close>, \<open>atob\<close>, \<open>escape\<close> and
  \<open>decodeURIComponent\<close> after ECMAScript (its annex B for \<open>escape\<close> and \<open>unescape\<close>)
  and the HTML standard (forgiving Base64). A thrown \<open>URIError\<close> or
  \<open>InvalidCharacterError\<close> is the result \<open>None\<close>.
\<close>

definition hexUpper :: "nat \<Rightarrow> 16 word" where
  \<comment> \<open>the digits \<open>0-9\<close>, \<open>A-F\<close>\<close>
  "hexUpper d = (if d < 10 then of_nat (0x30 + d) else of_nat (0x41 + (d - 10)))"

definition percent :: "nat \<Rightarrow> jsstring" where
  \<comment> \<open>\<open>%XX\<close> for an octet\<close>
  "percent b = [0x25, hexUpper (b div 16), hexUpper (b mod 16)]"

definition hexval :: "16 word \<Rightarrow> nat option" where
  "hexval c =
     (if 0x30 \<le> c \<and> c \<le> 0x39 then Some (unat c - 0x30)
      else if 0x41 \<le> c \<and> c \<le> 0x46 then Some (unat c - 0x41 + 10)
      else if 0x61 \<le> c \<and> c \<le> 0x66 then Some (unat c - 0x61 + 10)
      else None)"

definition hex2 :: "jsstring \<Rightarrow> nat option" where
  \<comment> \<open>the value of two hexadecimal digits at the start of the string\<close>
  "hex2 s =
     (case s of
        h # l # _ \<Rightarrow>
          (case (hexval h, hexval l) of (Some a, Some b) \<Rightarrow> Some (a * 16 + b) | _ \<Rightarrow> None)
      | _ \<Rightarrow> None)"

definition hex4 :: "jsstring \<Rightarrow> nat option" where
  "hex4 s =
     (case (hex2 s, hex2 (drop 2 s)) of (Some a, Some b) \<Rightarrow> Some (a * 256 + b) | _ \<Rightarrow> None)"

definition utf8 :: "nat \<Rightarrow> nat list" where
  \<comment> \<open>the octets of a code point\<close>
  "utf8 cp =
     (if cp < 0x80 then [cp]
      else if cp < 0x800 then [0xC0 + cp div 64, 0x80 + cp mod 64]
      else if cp < 0x10000 then [0xE0 + cp div 4096, 0x80 + cp div 64 mod 64, 0x80 + cp mod 64]
      else [0xF0 + cp div 262144, 0x80 + cp div 4096 mod 64, 0x80 + cp div 64 mod 64,
            0x80 + cp mod 64])"

definition is_alnum :: "16 word \<Rightarrow> bool" where
  "is_alnum c \<longleftrightarrow>
     (0x30 \<le> c \<and> c \<le> 0x39) \<or> (0x41 \<le> c \<and> c \<le> 0x5A) \<or> (0x61 \<le> c \<and> c \<le> 0x7A)"

definition uri_unreserved :: "16 word \<Rightarrow> bool" where
  \<comment> \<open>letters, digits and \<open>- _ . ! ~ * ' ( )\<close>\<close>
  "uri_unreserved c \<longleftrightarrow>
     is_alnum c \<or> c \<in> {0x2D, 0x5F, 0x2E, 0x21, 0x7E, 0x2A, 0x27, 0x28, 0x29}"

definition is_high_surrogate :: "16 word \<Rightarrow> bool" where
  "is_high_surrogate c \<longleftrightarrow> 0xD800 \<le> c \<and> c \<le> 0xDBFF"

definition is_low_surrogate :: "16 word \<Rightarrow> bool" where
  "is_low_surrogate c \<longleftrightarrow> 0xDC00 \<le> c \<and> c \<le> 0xDFFF"

definition pair_code_point :: "16 word \<Rightarrow> 16 word \<Rightarrow> nat" where
  "pair_code_point hi lo = 0x10000 + (unat hi - 0xD800) * 0x400 + (unat lo - 0xDC00)"

fun encodeURIComponent :: "jsstring \<Rightarrow> jsstring option" where
  "encodeURIComponent [] = Some []"
| "encodeURIComponent [c] =
     (if uri_unreserved c then Some [c]
      else if is_high_surrogate c \<or> is_low_surrogate c then None
      else Some (concat (map percent (utf8 (unat c)))))"
| "encodeURIComponent (c # d # ds) =
     (if uri_unreserved c then map_option ((#) c) (encodeURIComponent (d # ds))
      else if is_low_surrogate c then None
      else if is_high_surrogate c then
        (if is_low_surrogate d
         then map_option ((@) (concat (map percent (utf8 (pair_code_point c d)))))
                (encodeURIComponent ds)
         else None)
      else map_option ((@) (concat (map percent (utf8 (unat c)))))
             (encodeURIComponent (d # ds)))"

fun unescape :: "jsstring \<Rightarrow> jsstring" where
  "unescape [] = []"
| "unescape (c # cs) =
     (if c = 0x25 \<and> take 1 cs = [0x75] \<and> hex4 (drop 1 cs) \<noteq> None
      then of_nat (the (hex4 (drop 1 cs))) # unescape (drop 5 cs)
      else if c = 0x25 \<and> hex2 cs \<noteq> None
      then of_nat (the (hex2 cs)) # unescape (drop 2 cs)
      else c # unescape cs)"

definition base64_char :: "nat \<Rightarrow> 16 word" where
  \<comment> \<open>the alphabet \<open>A-Z\<close>, \<open>a-z\<close>, \<open>0-9\<close>, \<open>+\<close>, \<open>/\<close>\<close>
  "base64_char n =
     (if n < 26 then of_nat (0x41 + n)
      else if n < 52 then of_nat (0x61 + (n - 26))
      else if n < 62 then of_nat (0x30 + (n - 52))
      else if n = 62 then 0x2B
      else 0x2F)"

fun base64_encode :: "nat list \<Rightarrow> jsstring" where
  "base64_encode [] = []"
| "base64_encode [a] = [base64_char (a div 4), base64_char (a mod 4 * 16), 0x3D, 0x3D]"
| "base64_encode [a, b] =
     [base64_char (a div 4), base64_char (a mod 4 * 16 + b div 16),
      base64_char (b mod 16 * 4), 0x3D]"
| "base64_encode (a # b # c # bs) =
     [base64_char (a div 4), base64_char (a mod 4 * 16 + b div 16),
      base64_char (b mod 16 * 4 + c div 64), base64_char (c mod 64)] @ base64_encode bs"

definition btoa :: "jsstring \<Rightarrow> jsstring option" where
  "btoa s = (if list_ex (\<lambda>c. c > 0xFF) s then None else Some (base64_encode (map unat s)))"

definition base64_value :: "16 word \<Rightarrow> nat option" where
  "base64_value c =
     (if 0x41 \<le> c \<and> c \<le> 0x5A then Some (unat c - 0x41)
      else if 0x61 \<le> c \<and> c \<le> 0x7A then Some (unat c - 0x61 + 26)
      else if 0x30 \<le> c \<and> c \<le> 0x39 then Some (unat c - 0x30 + 52)
      else if c = 0x2B then Some 62
      else if c = 0x2F then Some 63
      else None)"

fun base64_decode :: "nat list \<Rightarrow> nat list" where
  "base64_decode (a # b # c # d # vs) =
     [a * 4 + b div 16, b mod 16 * 16 + c div 4, c mod 4 * 64 + d] @ base64_decode vs"
| "base64_decode [a, b, c] = [a * 4 + b div 16, b mod 16 * 16 + c div 4]"
| "base64_decode [a, b] = [a * 4 + b div 16]"
| "base64_decode _ = []"

definition strip_padding :: "jsstring \<Rightarrow> jsstring" where
  \<comment> \<open>a length divisible by four: one or two \<open>=\<close> at the end are removed\<close>
  "strip_padding s =
     (if length s mod 4 = 0 \<and> s \<noteq> [] \<and> last s = 0x3D
      then (if butlast s \<noteq> [] \<and> last (butlast s) = 0x3D then butlast (butlast s)
            else butlast s)
      else s)"

definition atob :: "jsstring \<Rightarrow> jsstring option" where
  "atob s =
     (let s1 = filter (\<lambda>c. c \<notin> {0x09, 0x0A, 0x0C, 0x0D, 0x20}) s;
          s2 = strip_padding s1
      in if length s2 mod 4 = 1 \<or> list_ex (\<lambda>c. base64_value c = None) s2 then None
         else Some (map of_nat (base64_decode (map (the \<circ> base64_value) s2))))"

definition escape_unescaped :: "16 word \<Rightarrow> bool" where
  \<comment> \<open>letters, digits and \<open>@ * _ + - . /\<close>\<close>
  "escape_unescaped c \<longleftrightarrow> is_alnum c \<or> c \<in> {0x40, 0x2A, 0x5F, 0x2B, 0x2D, 0x2E, 0x2F}"

definition escape_char :: "16 word \<Rightarrow> jsstring" where
  "escape_char c =
     (if escape_unescaped c then [c]
      else if c < 0x100 then percent (unat c)
      else [0x25, 0x75, hexUpper (unat c div 4096), hexUpper (unat c div 256 mod 16),
            hexUpper (unat c div 16 mod 16), hexUpper (unat c mod 16)])"

definition escape :: "jsstring \<Rightarrow> jsstring" where
  "escape s = concat (map escape_char s)"

text \<open>
  \<open>decodeURIComponent\<close>: a character other than \<open>%\<close> is copied; \<open>%XX\<close> with an octet below
  0x80 is that character; an octet that starts a sequence of \<open>n\<close> octets, \<open>2 \<le> n \<le> 4\<close>, is
  followed by \<open>n - 1\<close> groups \<open>%XX\<close> of continuation octets, and the sequence has to be the
  UTF-8 encoding of a code point (the shortest one, no surrogate, at most 0x10FFFF), which
  is appended as one or two UTF-16 code units. Everything else throws.
\<close>

definition sequence_length :: "nat \<Rightarrow> nat option" where
  "sequence_length b =
     (if b < 0x80 then Some 1
      else if 0xC0 \<le> b \<and> b < 0xE0 then Some 2
      else if 0xE0 \<le> b \<and> b < 0xF0 then Some 3
      else if 0xF0 \<le> b \<and> b < 0xF8 then Some 4
      else None)"

fun continuation_octets :: "nat \<Rightarrow> jsstring \<Rightarrow> nat list option" where
  "continuation_octets 0 s = Some []"
| "continuation_octets (Suc n) s =
     (case s of
        p # rest \<Rightarrow>
          (if p = 0x25 then
             (case hex2 rest of
                Some b \<Rightarrow>
                  (if 0x80 \<le> b \<and> b < 0xC0
                   then map_option ((#) b) (continuation_octets n (drop 2 rest))
                   else None)
              | None \<Rightarrow> None)
           else None)
      | [] \<Rightarrow> None)"

definition utf8_code_point :: "nat \<Rightarrow> nat list \<Rightarrow> nat option" where
  \<comment> \<open>the code point of a first octet and its continuation octets, if they are its encoding\<close>
  "utf8_code_point b conts =
     (let cp = (case conts of
                  [c1] \<Rightarrow> (b - 0xC0) * 64 + (c1 - 0x80)
                | [c1, c2] \<Rightarrow> (b - 0xE0) * 4096 + (c1 - 0x80) * 64 + (c2 - 0x80)
                | [c1, c2, c3] \<Rightarrow>
                    (b - 0xF0) * 262144 + (c1 - 0x80) * 4096 + (c2 - 0x80) * 64 + (c3 - 0x80)
                | _ \<Rightarrow> b)
      in if utf8 cp = b # conts \<and> \<not> (0xD800 \<le> cp \<and> cp \<le> 0xDFFF) \<and> cp \<le> 0x10FFFF
         then Some cp else None)"

definition utf16 :: "nat \<Rightarrow> jsstring" where
  "utf16 cp =
     (if cp < 0x10000 then [of_nat cp]
      else [of_nat (0xD800 + (cp - 0x10000) div 0x400), of_nat (0xDC00 + (cp - 0x10000) mod 0x400)])"

fun decodeURIComponent :: "jsstring \<Rightarrow> jsstring option" where
  "decodeURIComponent [] = Some []"
| "decodeURIComponent (c # cs) =
     (if c \<noteq> 0x25 then map_option ((#) c) (decodeURIComponent cs)
      else
        (case hex2 cs of
           None \<Rightarrow> None
         | Some b \<Rightarrow>
             (case sequence_length b of
                None \<Rightarrow> None
              | Some n \<Rightarrow>
                  (case continuation_octets (n - 1) (drop 2 cs) of
                     None \<Rightarrow> None
                   | Some conts \<Rightarrow>
                       (case utf8_code_point b conts of
                          None \<Rightarrow> None
                        | Some cp \<Rightarrow>
                            map_option ((@) (utf16 cp))
                              (decodeURIComponent (drop (2 + 3 * (n - 1)) cs)))))))"

subsection \<open>\<open>secureStorage\<close>\<close>

datatype js_error = URIError | InvalidCharacterError

definition secure_key :: "jsstring \<Rightarrow> jsstring" where
  \<comment> \<open>the template literal with the prefix \<open>secure_\<close>\<close>
  "secure_key k = js ''secure_'' @ k"

definition secureStorage_setItem :: "jsstring \<Rightarrow> jsstring \<Rightarrow> env \<Rightarrow> js_error + env" where
  "secureStorage_setItem k v e =
     (if \<not> has_window e then Inr e
      else case encodeURIComponent v of
             None \<Rightarrow> Inl URIError
           | Some u \<Rightarrow>
               (case btoa (unescape u) of
                  None \<Rightarrow> Inl InvalidCharacterError
                | Some encoded \<Rightarrow>
                    Inr (e \<lparr> localStorage := (localStorage e)(secure_key k \<mapsto> encoded) \<rparr>)))"

definition secureStorage_getItem :: "jsstring \<Rightarrow> env \<Rightarrow> jsstring option" where
  "secureStorage_getItem k e =
     (if \<not> has_window e then None
      else case localStorage e (secure_key k) of
             None \<Rightarrow> None
           | Some encoded \<Rightarrow>
               if encoded = [] then None
               else (case atob encoded of
                       None \<Rightarrow> None
                     | Some b \<Rightarrow> decodeURIComponent (escape b)))"

definition secureStorage_removeItem :: "jsstring \<Rightarrow> env \<Rightarrow> env" where
  "secureStorage_removeItem k e =
     (if \<not> has_window e then e
      else e \<lparr> localStorage := (localStorage e)(secure_key k := None) \<rparr>)"

lemma encode_empty:
  "encodeURIComponent [] = Some []" "unescape [] = []" "btoa [] = Some []"
  by (simp_all add: btoa_def)

lemma setItem_empty:
  "has_window e \<Longrightarrow>
     secureStorage_setItem k [] e = Inr (e \<lparr> localStorage := (localStorage e)(secure_key k \<mapsto> []) \<rparr>)"
  by (simp add: secureStorage_setItem_def encode_empty)

lemma getItem_empty_stored:
  "localStorage e (secure_key k) = Some [] \<Longrightarrow> secureStorage_getItem k e = None"
  by (simp add: secureStorage_getItem_def)

lemma getItem_after_setItem_empty:
  "has_window e \<Longrightarrow>
     \<exists>e'. secureStorage_setItem k [] e = Inr e' \<and> secureStorage_getItem k e' = None"
  by (simp add: setItem_empty getItem_empty_stored)

lemma getItem_after_removeItem:
  "secureStorage_getItem k (secureStorage_removeItem k e) = None"
  by (simp add: secureStorage_getItem_def secureStorage_removeItem_def)

lemma getItem_never_set:
  "localStorage e (secure_key k) = None \<Longrightarrow> secureStorage_getItem k e = None"
  by (simp add: secureStorage_getItem_def)

subsection \<open>The round trip\<close>

text \<open>
  \<open>unescape(encodeURIComponent(v))\<close> is the string of the UTF-8 octets of \<open>v\<close>, \<open>btoa\<close>
  and \<open>atob\<close> are inverse on strings of octets, and \<open>decodeURIComponent(escape(b))\<close>
  reads UTF-8 octets back. The lemmas below prove this for every well-formed string, so
  that the value read back is the value written whenever the stored text is not empty.
\<close>

lemma unat_of_nat_16: "b < 65536 \<Longrightarrow> unat (of_nat b :: 16 word) = b"
  by (simp add: unat_of_nat)

lemma unat_hexUpper: "d < 16 \<Longrightarrow> unat (hexUpper d) = (if d < 10 then 48 + d else 55 + d)"
  unfolding hexUpper_def
  by (simp add: unat_of_nat_16 del: of_nat_add of_nat_numeral)

lemma hexval_unat:
  "hexval c =
     (if 48 \<le> unat c \<and> unat c \<le> 57 then Some (unat c - 48)
      else if 65 \<le> unat c \<and> unat c \<le> 70 then Some (unat c - 65 + 10)
      else if 97 \<le> unat c \<and> unat c \<le> 102 then Some (unat c - 97 + 10)
      else None)"
  by (simp add: hexval_def word_le_nat_alt)

lemma hexval_hexUpper: "d < 16 \<Longrightarrow> hexval (hexUpper d) = Some d"
  by (simp add: hexval_unat unat_hexUpper)

lemma hexUpper_not_u: "d < 16 \<Longrightarrow> hexUpper d \<noteq> 0x75"
proof -
  assume "d < 16"
  then have "unat (hexUpper d) \<noteq> unat (0x75 :: 16 word)" by (simp add: unat_hexUpper)
  then show ?thesis by (rule contrapos_nn) simp
qed

lemma hex2_hexUpper:
  "b < 256 \<Longrightarrow> hex2 (hexUpper (b div 16) # hexUpper (b mod 16) # X) = Some b"
  by (simp add: hex2_def hexval_hexUpper)

lemma unescape_percent:
  "b < 256 \<Longrightarrow> unescape (percent b @ X) = of_nat b # unescape X"
  by (simp add: percent_def hex2_hexUpper hexUpper_not_u)

lemma unescape_percents:
  "\<forall>b \<in> set bs. b < 256 \<Longrightarrow>
     unescape (concat (map percent bs) @ X) = map of_nat bs @ unescape X"
  by (induction bs) (simp_all add: unescape_percent)


text \<open>
  The code points of a string: \<open>None\<close> for a string that is not well formed (a surrogate
  without its partner).
\<close>

fun code_points :: "jsstring \<Rightarrow> nat list option" where
  "code_points [] = Some []"
| "code_points [c] =
     (if is_high_surrogate c \<or> is_low_surrogate c then None else Some [unat c])"
| "code_points (c # d # ds) =
     (if is_low_surrogate c then None
      else if is_high_surrogate c then
        (if is_low_surrogate d then map_option ((#) (pair_code_point c d)) (code_points ds)
         else None)
      else map_option ((#) (unat c)) (code_points (d # ds)))"

definition well_formed :: "jsstring \<Rightarrow> bool" where
  "well_formed v \<longleftrightarrow> code_points v \<noteq> None"

lemma utf8_octets: "cp < 0x110000 \<Longrightarrow> b \<in> set (utf8 cp) \<Longrightarrow> b < 256"
  by (auto simp add: utf8_def split: if_splits)

lemma unat_lt_65536: "unat (c :: 16 word) < 65536"
  using unsigned_less [of c, where 'a = nat] by simp

lemma pair_code_point_range:
  "is_high_surrogate c \<Longrightarrow> is_low_surrogate d \<Longrightarrow>
     0x10000 \<le> pair_code_point c d \<and> pair_code_point c d < 0x110000"
  unfolding is_high_surrogate_def is_low_surrogate_def pair_code_point_def word_le_nat_alt
  by (simp, arith)

lemma code_points_range:
  "code_points v = Some cps \<Longrightarrow> cp \<in> set cps \<Longrightarrow> cp < 0x110000"
proof (induction v arbitrary: cps rule: code_points.induct)
  case 1
  then show ?case by simp
next
  case (2 c)
  then show ?case using unat_lt_65536 [of c] by (auto split: if_splits)
next
  case (3 c d ds)
  then show ?case
    using unat_lt_65536 [of c] pair_code_point_range [of c d]
    by (auto split: if_splits)
qed

lemma unreserved_ascii:
  assumes "uri_unreserved c"
  shows "unat c < 0x80" "c \<noteq> 0x25" "\<not> is_high_surrogate c" "\<not> is_low_surrogate c"
  using assms
  unfolding uri_unreserved_def is_alnum_def is_high_surrogate_def is_low_surrogate_def
    word_le_nat_alt
  by auto

lemma unescape_plain: "c \<noteq> 0x25 \<Longrightarrow> unescape (c # X) = c # unescape X"
  by simp

lemma utf8_ascii: "cp < 0x80 \<Longrightarrow> utf8 cp = [cp]"
  by (simp add: utf8_def)

lemma encode_then_unescape:
  "code_points v = Some cps \<Longrightarrow>
     \<exists>u. encodeURIComponent v = Some u \<and> unescape u = map of_nat (concat (map utf8 cps))"
proof (induction v arbitrary: cps rule: encodeURIComponent.induct)
  case 1
  then show ?case by simp
next
  case (2 c)
  then have ns: "\<not> (is_high_surrogate c \<or> is_low_surrogate c)" and cps: "cps = [unat c]"
    by (auto split: if_splits)
  show ?case
  proof (cases "uri_unreserved c")
    case True
    with cps unreserved_ascii [OF True] show ?thesis by (simp add: utf8_ascii)
  next
    case False
    have "\<forall>b \<in> set (utf8 (unat c)). b < 256"
      using utf8_octets [of "unat c"] unat_lt_65536 [of c] by auto
    from unescape_percents [OF this, of "[]"] False ns cps show ?thesis by simp
  qed
next
  case (3 c d ds)
  show ?case
  proof (cases "uri_unreserved c")
    case True
    note u = unreserved_ascii [OF True]
    from "3.prems" u obtain cps' where c': "code_points (d # ds) = Some cps'"
      and cps: "cps = unat c # cps'" by (auto split: if_splits)
    from "3.IH"(1) [OF True c'] obtain u' where
      "encodeURIComponent (d # ds) = Some u'" "unescape u' = map of_nat (concat (map utf8 cps'))"
      by blast
    with True u cps show ?thesis by (simp add: utf8_ascii)
  next
    case False
    from "3.prems" have nl: "\<not> is_low_surrogate c" by (auto split: if_splits)
    show ?thesis
    proof (cases "is_high_surrogate c")
      case True
      from "3.prems" nl True obtain cps' where ld: "is_low_surrogate d"
        and c': "code_points ds = Some cps'" and cps: "cps = pair_code_point c d # cps'"
        by (auto split: if_splits)
      from "3.IH"(2) [OF False nl True ld c'] obtain u' where
        u': "encodeURIComponent ds = Some u'" "unescape u' = map of_nat (concat (map utf8 cps'))"
        by blast
      have "\<forall>b \<in> set (utf8 (pair_code_point c d)). b < 256"
        using utf8_octets [of "pair_code_point c d"] pair_code_point_range [OF True ld] by auto
      from unescape_percents [OF this, of u'] False nl True ld u' cps show ?thesis by simp
    next
      case nh: False
      from "3.prems" nl nh obtain cps' where
        c': "code_points (d # ds) = Some cps'" and cps: "cps = unat c # cps'"
        by (auto split: if_splits)
      from "3.IH"(3) [OF False nl nh c'] obtain u' where
        u': "encodeURIComponent (d # ds) = Some u'"
          "unescape u' = map of_nat (concat (map utf8 cps'))"
        by blast
      have "\<forall>b \<in> set (utf8 (unat c)). b < 256"
        using utf8_octets [of "unat c"] unat_lt_65536 [of c] by auto
      from unescape_percents [OF this, of u'] False nl nh u' cps show ?thesis by simp
    qed
  qed
qed

lemma btoa_octets:
  assumes "\<forall>b \<in> set bs. b < 256"
  shows "btoa (map of_nat bs) = Some (base64_encode bs)"
proof -
  have u: "unat (of_nat b :: 16 word) = b" if "b \<in> set bs" for b
  proof -
    from that assms have "b < 256" by blast
    then have "b < 65536" by simp
    then show ?thesis by (rule unat_of_nat_16)
  qed
  then have "map unat (map of_nat bs :: jsstring) = bs"
    by (simp add: map_idI)
  moreover have "\<not> list_ex (\<lambda>c. c > 0xFF) (map of_nat bs :: jsstring)"
    using u assms by (auto simp add: list_ex_iff word_less_nat_alt) 
  ultimately show ?thesis by (simp add: btoa_def)
qed

fun base64_body :: "nat list \<Rightarrow> nat list" where
  "base64_body [] = []"
| "base64_body [a] = [a div 4, a mod 4 * 16]"
| "base64_body [a, b] = [a div 4, a mod 4 * 16 + b div 16, b mod 16 * 4]"
| "base64_body (a # b # c # bs) =
     [a div 4, a mod 4 * 16 + b div 16, b mod 16 * 4 + c div 64, c mod 64] @ base64_body bs"

fun base64_pad :: "nat list \<Rightarrow> jsstring" where
  "base64_pad [] = []"
| "base64_pad [a] = [0x3D, 0x3D]"
| "base64_pad [a, b] = [0x3D]"
| "base64_pad (a # b # c # bs) = base64_pad bs"

lemma base64_encode_split:
  "base64_encode bs = map base64_char (base64_body bs) @ base64_pad bs"
  by (induction bs rule: base64_encode.induct) simp_all

lemma length_base64_encode: "length (base64_encode bs) mod 4 = 0"
  by (induction bs rule: base64_encode.induct) simp_all

lemma sextet_bounds:
  fixes a b c :: nat
  shows "a < 256 \<Longrightarrow> a div 4 < 64"
    and "a mod 4 * 16 < 64"
    and "b < 256 \<Longrightarrow> a mod 4 * 16 + b div 16 < 64"
    and "b mod 16 * 4 < 64"
    and "c < 256 \<Longrightarrow> b mod 16 * 4 + c div 64 < 64"
    and "c mod 64 < 64"
proof -
  have a4: "a mod 4 < 4" and b16: "b mod 16 < 16" by simp_all
  show "a < 256 \<Longrightarrow> a div 4 < 64" by simp
  from a4 show "a mod 4 * 16 < 64" by linarith
  show "a mod 4 * 16 + b div 16 < 64" if "b < 256"
  proof -
    from that have "b div 16 < 16" by simp
    with a4 show ?thesis by linarith
  qed
  from b16 show "b mod 16 * 4 < 64" by linarith
  show "b mod 16 * 4 + c div 64 < 64" if "c < 256"
  proof -
    from that have "c div 64 < 4" by simp
    with b16 show ?thesis by linarith
  qed
  show "c mod 64 < 64" by simp
qed

lemma base64_body_range:
  "\<forall>b \<in> set bs. b < 256 \<Longrightarrow> \<forall>n \<in> set (base64_body bs). n < 64"
proof (induction bs rule: base64_body.induct)
  case 1
  then show ?case by simp
next
  case (2 a)
  then have "a < 256" by simp
  then show ?case by (simp add: sextet_bounds)
next
  case (3 a b)
  then have "a < 256" "b < 256" by simp_all
  then show ?case by (simp add: sextet_bounds)
next
  case (4 a b c bs)
  then have "a < 256" "b < 256" "c < 256" and "\<forall>n \<in> set (base64_body bs). n < 64"
    by simp_all
  then show ?case by (simp add: sextet_bounds)
qed

lemma length_base64_body: "length (base64_body bs) mod 4 \<noteq> 1"
  by (induction bs rule: base64_body.induct) simp_all

lemma base64_body_Nil: "base64_body bs = [] \<longleftrightarrow> bs = []"
  by (cases bs rule: base64_body.cases) simp_all

lemma base64_decode_body:
  "\<forall>b \<in> set bs. b < 256 \<Longrightarrow> base64_decode (base64_body bs) = bs"
proof (induction bs rule: base64_body.induct)
  case 1
  then show ?case by simp
next
  case (2 a)
  then show ?case by simp
next
  case (3 a b)
  then have "b < 256" by simp
  then show ?case by simp
next
  case (4 a b c bs)
  then have "b < 256" "c < 256" and "base64_decode (base64_body bs) = bs" by simp_all
  then show ?case by simp
qed


lemma unat_base64_char:
  "n < 64 \<Longrightarrow>
     unat (base64_char n) =
       (if n < 26 then 65 + n else if n < 52 then 71 + n else if n < 62 then n - 4
        else if n = 62 then 43 else 47)"
  unfolding base64_char_def
  by (simp add: unat_of_nat_16 del: of_nat_add of_nat_numeral of_nat_diff)

lemma base64_value_unat:
  "base64_value c =
     (if 65 \<le> unat c \<and> unat c \<le> 90 then Some (unat c - 65)
      else if 97 \<le> unat c \<and> unat c \<le> 122 then Some (unat c - 97 + 26)
      else if 48 \<le> unat c \<and> unat c \<le> 57 then Some (unat c - 48 + 52)
      else if unat c = 43 then Some 62
      else if unat c = 47 then Some 63
      else None)"
  by (simp add: base64_value_def word_le_nat_alt word_unat_eq_iff)

lemma base64_value_char: "n < 64 \<Longrightarrow> base64_value (base64_char n) = Some n"
  by (auto simp add: base64_value_unat unat_base64_char)

lemma base64_value_not_special:
  assumes "base64_value c \<noteq> None"
  shows "c \<noteq> 0x3D" and "c \<notin> {0x09, 0x0A, 0x0C, 0x0D, 0x20}"
  using assms unfolding base64_value_def by (auto split: if_splits)


lemma base64_pad_cases:
  "base64_pad bs = []
   \<or> (base64_pad bs = [0x3D] \<and> base64_body bs \<noteq> [])
   \<or> (base64_pad bs = [0x3D, 0x3D] \<and> base64_body bs \<noteq> [])"
  by (induction bs rule: base64_pad.induct) auto

lemma base64_chars:
  assumes "\<forall>b \<in> set bs. b < 256" and "c \<in> set (map base64_char (base64_body bs))"
  shows "base64_value c \<noteq> None" and "c \<noteq> 0x3D" and "c \<notin> {0x09, 0x0A, 0x0C, 0x0D, 0x20}"
proof -
  from assms(2) obtain n where n: "n \<in> set (base64_body bs)" and c: "c = base64_char n"
    by auto
  from base64_body_range [OF assms(1)] n have "n < 64" by blast
  then show v: "base64_value c \<noteq> None" by (simp add: c base64_value_char)
  from base64_value_not_special [OF v]
  show "c \<noteq> 0x3D" and "c \<notin> {0x09, 0x0A, 0x0C, 0x0D, 0x20}" .
qed

lemma strip_padding_encode:
  assumes "\<forall>b \<in> set bs. b < 256"
  shows "strip_padding (base64_encode bs) = map base64_char (base64_body bs)"
proof -
  let ?body = "map base64_char (base64_body bs)"
  have len: "length (?body @ base64_pad bs) mod 4 = 0"
    using length_base64_encode [of bs] by (simp add: base64_encode_split)
  have lastb: "last ?body \<noteq> 0x3D" if "?body \<noteq> []"
    using base64_chars(2) [OF assms, of "last ?body"] that last_in_set by blast
  from base64_pad_cases [of bs] consider
      "base64_pad bs = []"
    | "base64_pad bs = [0x3D]" "?body \<noteq> []"
    | "base64_pad bs = [0x3D, 0x3D]" "?body \<noteq> []"
    by auto
  then have "strip_padding (?body @ base64_pad bs) = ?body"
  proof cases
    case 1
    then show ?thesis using lastb by (auto simp add: strip_padding_def)
  next
    case 2
    with len lastb show ?thesis by (simp add: strip_padding_def)
  next
    case 3
    have "butlast (?body @ [0x3D, 0x3D]) = ?body @ [0x3D]"
      by (simp add: butlast_append)
    with 3 len show ?thesis by (simp add: strip_padding_def)
  qed
  then show ?thesis by (simp add: base64_encode_split)
qed

lemma atob_encode:
  assumes "\<forall>b \<in> set bs. b < 256"
  shows "atob (base64_encode bs) = Some (map of_nat bs)"
proof -
  let ?body = "map base64_char (base64_body bs)"
  have pad: "c \<in> set (base64_pad bs) \<Longrightarrow> c = 0x3D" for c
    using base64_pad_cases [of bs] by auto
  have "c \<notin> {0x09, 0x0A, 0x0C, 0x0D, 0x20}" if "c \<in> set (base64_encode bs)" for c
  proof -
    from that consider "c \<in> set ?body" | "c \<in> set (base64_pad bs)"
      by (auto simp add: base64_encode_split)
    then show ?thesis
    proof cases
      case 1
      then show ?thesis by (rule base64_chars(3) [OF assms])
    next
      case 2
      then have "c = 0x3D" by (rule pad)
      then show ?thesis by simp
    qed
  qed
  then have s1: "filter (\<lambda>c. c \<notin> {0x09, 0x0A, 0x0C, 0x0D, 0x20}) (base64_encode bs)
      = base64_encode bs"
    by (simp add: filter_id_conv)
  have valid: "\<not> list_ex (\<lambda>c. base64_value c = None) ?body"
    using base64_chars(1) [OF assms] by (auto simp add: list_ex_iff)
  have "map (the \<circ> base64_value) ?body = map (\<lambda>n. n) (base64_body bs)"
    unfolding map_map
  proof (rule map_cong [OF refl])
    fix n assume "n \<in> set (base64_body bs)"
    with base64_body_range [OF assms] have "n < 64" by blast
    then show "((the \<circ> base64_value) \<circ> base64_char) n = n"
      by (simp add: base64_value_char)
  qed
  then have vals: "map (the \<circ> base64_value) ?body = base64_body bs" by simp
  have l1: "length ?body mod 4 \<noteq> 1"
    using length_base64_body [of bs] by simp
  show ?thesis
    unfolding atob_def s1 Let_def strip_padding_encode [OF assms]
    using valid l1 by (simp only: vals base64_decode_body [OF assms]) simp
qed

lemma base64_encode_Nil: "base64_encode bs = [] \<longleftrightarrow> bs = []"
  by (cases bs rule: base64_encode.cases) simp_all

lemma escape_append: "escape (xs @ ys) = escape xs @ escape ys"
  by (simp add: escape_def)

lemma escape_unescaped_ascii:
  assumes "escape_unescaped c"
  shows "unat c < 0x80" and "c \<noteq> 0x25"
  using assms unfolding escape_unescaped_def is_alnum_def word_le_nat_alt by auto

lemma escape_char_high_octet:
  assumes "0x80 \<le> b" "b < 256"
  shows "escape_char (of_nat b) = percent b"
proof -
  from assms have u: "unat (of_nat b :: 16 word) = b" by (simp add: unat_of_nat_16)
  with assms escape_unescaped_ascii(1) [of "of_nat b"]
  have "\<not> escape_unescaped (of_nat b :: 16 word)" by auto
  moreover from u assms have "(of_nat b :: 16 word) < 0x100"
    by (simp add: word_less_nat_alt)
  ultimately show ?thesis by (simp add: escape_char_def u)
qed

lemma escape_char_ascii:
  assumes "b < 0x80"
  shows "escape_char (of_nat b) = (if escape_unescaped (of_nat b) then [of_nat b] else percent b)"
proof -
  from assms have u: "unat (of_nat b :: 16 word) = b" by (simp add: unat_of_nat_16)
  from u assms have "(of_nat b :: 16 word) < 0x100"
    by (simp add: word_less_nat_alt)
  then show ?thesis by (simp add: escape_char_def u)
qed

lemma escape_high_octets:
  "\<forall>b \<in> set bs. 0x80 \<le> b \<and> b < 256 \<Longrightarrow>
     escape (map of_nat bs) = concat (map percent bs)"
  by (induction bs) (simp_all add: escape_def escape_char_high_octet)

lemma decode_plain:
  "c \<noteq> 0x25 \<Longrightarrow> decodeURIComponent (c # X) = map_option ((#) c) (decodeURIComponent X)"
  by simp

lemma continuation_percents:
  "\<forall>c \<in> set cs. 0x80 \<le> c \<and> c < 0xC0 \<Longrightarrow>
     continuation_octets (length cs) (concat (map percent cs) @ X) = Some cs"
proof (induction cs)
  case Nil
  then show ?case by simp
next
  case (Cons c cs)
  then have c: "0x80 \<le> c" "c < 0xC0" "c < 256" by simp_all
  have "percent c @ concat (map percent cs) @ X
       = 0x25 # hexUpper (c div 16) # hexUpper (c mod 16) # (concat (map percent cs) @ X)"
    by (simp add: percent_def)
  with Cons c show ?case by (simp add: hex2_hexUpper)
qed

lemma length_percents: "length (concat (map percent cs)) = 3 * length cs"
  by (induction cs) (simp_all add: percent_def)

lemma split_octets3: "(cp::nat) div 4096 * 4096 + cp div 64 mod 64 * 64 + cp mod 64 = cp"
proof -
  have a: "cp div 4096 = cp div 64 div 64" by (simp add: div_mult2_eq)
  have b: "cp div 64 = cp div 64 div 64 * 64 + cp div 64 mod 64" by simp
  have c: "cp = cp div 64 * 64 + cp mod 64" by simp
  from b c show ?thesis unfolding a by linarith
qed

lemma split_octets4:
  "(cp::nat) div 262144 * 262144 + cp div 4096 mod 64 * 4096 + cp div 64 mod 64 * 64
     + cp mod 64 = cp"
proof -
  have a: "cp div 262144 = cp div 4096 div 64" by (simp add: div_mult2_eq)
  have b: "cp div 4096 = cp div 4096 div 64 * 64 + cp div 4096 mod 64" by simp
  from split_octets3 [of cp] b show ?thesis unfolding a by linarith
qed

lemma utf8_code_point_utf8:
  assumes "cp < 0x110000" "\<not> (0xD800 \<le> cp \<and> cp \<le> 0xDFFF)" "utf8 cp = b # conts"
  shows "utf8_code_point b conts = Some cp"
proof -
  consider "cp < 0x80" | "0x80 \<le> cp" "cp < 0x800" | "0x800 \<le> cp" "cp < 0x10000"
    | "0x10000 \<le> cp" by linarith
  then have "(case conts of
                  [c1] \<Rightarrow> (b - 0xC0) * 64 + (c1 - 0x80)
                | [c1, c2] \<Rightarrow> (b - 0xE0) * 4096 + (c1 - 0x80) * 64 + (c2 - 0x80)
                | [c1, c2, c3] \<Rightarrow>
                    (b - 0xF0) * 262144 + (c1 - 0x80) * 4096 + (c2 - 0x80) * 64 + (c3 - 0x80)
                | _ \<Rightarrow> b) = cp"
  proof cases
    case 1
    with assms(3) show ?thesis by (simp add: utf8_def)
  next
    case 2
    with assms(3) have "b = 0xC0 + cp div 64" "conts = [0x80 + cp mod 64]"
      by (simp_all add: utf8_def)
    then show ?thesis by simp
  next
    case 3
    with assms(3) have "b = 0xE0 + cp div 4096" "conts = [0x80 + cp div 64 mod 64, 0x80 + cp mod 64]"
      by (simp_all add: utf8_def)
    then show ?thesis using split_octets3 [of cp] by simp
  next
    case 4
    with assms(3) have "b = 0xF0 + cp div 262144"
      "conts = [0x80 + cp div 4096 mod 64, 0x80 + cp div 64 mod 64, 0x80 + cp mod 64]"
      by (simp_all add: utf8_def)
    then show ?thesis using split_octets4 [of cp] by simp
  qed
  with assms show ?thesis by (simp add: utf8_code_point_def)
qed

lemma utf8_shape:
  assumes "0x80 \<le> cp" "cp < 0x110000"
  shows "\<exists>b conts. utf8 cp = b # conts \<and> 0x80 \<le> b \<and> b < 256
           \<and> sequence_length b = Some (Suc (length conts))
           \<and> (\<forall>c \<in> set conts. 0x80 \<le> c \<and> c < 0xC0)"
proof -
  consider "cp < 0x800" | "0x800 \<le> cp" "cp < 0x10000" | "0x10000 \<le> cp" by linarith
  then show ?thesis
  proof cases
    case 1
    then have "cp div 64 < 32" by simp
    with 1 assms show ?thesis by (simp add: utf8_def sequence_length_def)
  next
    case 2
    then have "cp div 4096 < 16" by simp
    with 2 assms show ?thesis by (simp add: utf8_def sequence_length_def)
  next
    case 3
    from assms have "cp div 262144 < 5" by simp
    with 3 assms show ?thesis by (simp add: utf8_def sequence_length_def)
  qed
qed

lemma decode_percent_ascii:
  assumes "b < 0x80"
  shows "decodeURIComponent (percent b @ X)
       = map_option ((@) (utf16 b)) (decodeURIComponent X)"
proof -
  from assms have b: "b < 256" by simp
  have u: "utf8_code_point b [] = Some b"
    using assms by (intro utf8_code_point_utf8) (simp_all add: utf8_def)
  have s: "sequence_length b = Some 1"
    using assms by (simp add: sequence_length_def)
  have "percent b @ X = 0x25 # (hexUpper (b div 16) # hexUpper (b mod 16) # X)"
    by (simp add: percent_def)
  then show ?thesis
    by (simp add: hex2_hexUpper [OF b] s u)
qed

lemma decode_percent_sequence:
  assumes "0x80 \<le> cp" "cp < 0x110000" "\<not> (0xD800 \<le> cp \<and> cp \<le> 0xDFFF)"
  shows "decodeURIComponent (concat (map percent (utf8 cp)) @ X)
       = map_option ((@) (utf16 cp)) (decodeURIComponent X)"
proof -
  from utf8_shape [OF assms(1,2)] obtain b conts where
    e: "utf8 cp = b # conts" and b: "0x80 \<le> b" "b < 256"
    and s: "sequence_length b = Some (Suc (length conts))"
    and c: "\<forall>c \<in> set conts. 0x80 \<le> c \<and> c < 0xC0" by blast
  let ?rest = "concat (map percent conts) @ X"
  have u: "utf8_code_point b conts = Some cp"
    using assms(2,3) e by (rule utf8_code_point_utf8)
  have k: "continuation_octets (length conts) ?rest = Some conts"
    using c by (rule continuation_percents)
  have d: "drop (3 * length conts) ?rest = X"
    using length_percents [of conts] by simp
  have "concat (map percent (utf8 cp)) @ X
       = 0x25 # (hexUpper (b div 16) # hexUpper (b mod 16) # ?rest)"
    by (simp add: e percent_def)
  then show ?thesis
    by (simp add: hex2_hexUpper [OF b(2)] s k u length_percents)
qed

lemma decode_code_point:
  assumes "cp < 0x110000" "\<not> (0xD800 \<le> cp \<and> cp \<le> 0xDFFF)"
  shows "decodeURIComponent (escape (map of_nat (utf8 cp)) @ X)
       = map_option ((@) (utf16 cp)) (decodeURIComponent X)"
proof (cases "cp < 0x80")
  case True
  then have e: "utf8 cp = [cp]" by (simp add: utf8_def)
  show ?thesis
  proof (cases "escape_unescaped (of_nat cp :: 16 word)")
    case u: True
    have "(@) [of_nat cp :: 16 word] = (#) (of_nat cp)" by (rule ext) simp
    with escape_unescaped_ascii(2) [OF u] True show ?thesis
      by (simp add: e escape_def escape_char_ascii u utf16_def)
  next
    case False
    with True show ?thesis
      by (simp add: e escape_def escape_char_ascii decode_percent_ascii)
  qed
next
  case False
  then have ge: "0x80 \<le> cp" by simp
  from utf8_shape [OF ge assms(1)] have "\<forall>b \<in> set (utf8 cp). 0x80 \<le> b \<and> b < 256"
    by force
  then have "escape (map of_nat (utf8 cp)) = concat (map percent (utf8 cp))"
    by (rule escape_high_octets)
  with decode_percent_sequence [OF ge assms] show ?thesis by simp
qed

lemma utf16_unit:
  fixes c :: "16 word"
  shows "utf16 (unat c) = [c]"
  using unat_lt_65536 [of c] by (simp add: utf16_def)

lemma utf16_pair:
  assumes "is_high_surrogate c" "is_low_surrogate d"
  shows "utf16 (pair_code_point c d) = [c, d]"
proof -
  from assms have c: "0xD800 \<le> unat c" "unat c \<le> 0xDBFF"
    and d: "0xDC00 \<le> unat d" "unat d \<le> 0xDFFF"
    unfolding is_high_surrogate_def is_low_surrogate_def word_le_nat_alt by simp_all
  define x where "x = unat c - 0xD800"
  define y where "y = unat d - 0xDC00"
  from d have y: "y < 0x400" by (simp add: y_def)
  have p: "pair_code_point c d = 0x10000 + x * 0x400 + y"
    by (simp add: pair_code_point_def x_def y_def)
  from y have "(x * 0x400 + y) div 0x400 = x" "(x * 0x400 + y) mod 0x400 = y" by simp_all
  moreover from c have "0xD800 + x = unat c" by (simp add: x_def)
  moreover from d have "0xDC00 + y = unat d" by (simp add: y_def)
  ultimately show ?thesis by (simp add: utf16_def p)
qed

lemma escape_then_decode:
  "code_points v = Some cps \<Longrightarrow>
     decodeURIComponent (escape (map of_nat (concat (map utf8 cps)))) = Some v"
proof (induction v arbitrary: cps rule: code_points.induct)
  case 1
  then show ?case by (simp add: escape_def)
next
  case (2 c)
  then have ns: "\<not> is_high_surrogate c" "\<not> is_low_surrogate c" and cps: "cps = [unat c]"
    by (auto split: if_splits)
  from ns have "\<not> (0xD800 \<le> unat c \<and> unat c \<le> 0xDFFF)"
    unfolding is_high_surrogate_def is_low_surrogate_def word_le_nat_alt by auto
  moreover have "unat c < 0x110000" using unat_lt_65536 [of c] by simp
  ultimately have "decodeURIComponent (escape (map of_nat (utf8 (unat c))) @ [])
       = map_option ((@) (utf16 (unat c))) (decodeURIComponent [])"
    by (intro decode_code_point)
  then show ?case by (simp add: cps utf16_unit)
next
  case (3 c d ds)
  from "3.prems" have nl: "\<not> is_low_surrogate c" by (auto split: if_splits)
  show ?case
  proof (cases "is_high_surrogate c")
    case True
    from "3.prems" nl True obtain cps' where ld: "is_low_surrogate d"
      and c': "code_points ds = Some cps'" and cps: "cps = pair_code_point c d # cps'"
      by (auto split: if_splits)
    let ?X = "escape (map of_nat (concat (map utf8 cps')))"
    from "3.IH"(1) [OF nl True ld c'] have ih: "decodeURIComponent ?X = Some ds" .
    from pair_code_point_range [OF True ld]
    have r: "pair_code_point c d < 0x110000"
      "\<not> (0xD800 \<le> pair_code_point c d \<and> pair_code_point c d \<le> 0xDFFF)" by simp_all
    from decode_code_point [OF r, of ?X] ih show ?thesis
      by (simp add: cps escape_append utf16_pair [OF True ld])
  next
    case nh: False
    from "3.prems" nl nh obtain cps' where
      c': "code_points (d # ds) = Some cps'" and cps: "cps = unat c # cps'"
      by (auto split: if_splits)
    let ?X = "escape (map of_nat (concat (map utf8 cps')))"
    from "3.IH"(2) [OF nl nh c'] have ih: "decodeURIComponent ?X = Some (d # ds)" .
    from nl nh have "\<not> (0xD800 \<le> unat c \<and> unat c \<le> 0xDFFF)"
      unfolding is_high_surrogate_def is_low_surrogate_def word_le_nat_alt by auto
    moreover have "unat c < 0x110000" using unat_lt_65536 [of c] by simp
    ultimately have "decodeURIComponent (escape (map of_nat (utf8 (unat c))) @ ?X)
       = map_option ((@) (utf16 (unat c))) (decodeURIComponent ?X)"
      by (intro decode_code_point)
    with ih show ?thesis by (simp add: cps escape_append utf16_unit)
  qed
qed

lemma code_points_Nil: "code_points v = Some cps \<Longrightarrow> v \<noteq> [] \<Longrightarrow> cps \<noteq> []"
  by (cases v rule: code_points.cases) (auto split: if_splits)

lemma utf8_not_Nil: "utf8 cp \<noteq> []"
  by (simp add: utf8_def)

lemma setItem_then_getItem:
  assumes "has_window e" "well_formed v"
  shows "\<exists>e'. secureStorage_setItem k v e = Inr e'
           \<and> secureStorage_getItem k e' = (if v = [] then None else Some v)"
proof -
  from assms(2) obtain cps where cps: "code_points v = Some cps"
    by (auto simp add: well_formed_def)
  let ?bs = "concat (map utf8 cps)"
  from encode_then_unescape [OF cps] obtain u where
    u: "encodeURIComponent v = Some u" "unescape u = map of_nat ?bs" by blast
  have oct: "\<forall>b \<in> set ?bs. b < 256"
    using code_points_range [OF cps] utf8_octets by auto
  let ?e' = "e \<lparr> localStorage := (localStorage e)(secure_key k \<mapsto> base64_encode ?bs) \<rparr>"
  have set: "secureStorage_setItem k v e = Inr ?e'"
    using assms(1) u btoa_octets [OF oct] by (simp add: secureStorage_setItem_def)
  have get: "secureStorage_getItem k ?e' = (if v = [] then None else Some v)"
  proof (cases "v = []")
    case True
    with cps have "cps = []" by simp
    then have "base64_encode ?bs = []" by simp
    with True assms(1) show ?thesis by (simp add: secureStorage_getItem_def)
  next
    case False
    from code_points_Nil [OF cps False] obtain cp cps' where "cps = cp # cps'"
      by (cases cps) auto
    then have "?bs \<noteq> []" using utf8_not_Nil [of cp] by simp
    then have "base64_encode ?bs \<noteq> []" by (simp add: base64_encode_Nil)
    with False assms(1) show ?thesis
      by (simp add: secureStorage_getItem_def atob_encode [OF oct] escape_then_decode [OF cps])
  qed
  from set get show ?thesis by blast
qed

text \<open>
  Claim C10 says that in a browser, for every key and every well-formed string value,
  \<open>getItem\<close> after \<open>setItem\<close> returns the value. By \<open>setItem_then_getItem\<close> this holds
  for every well-formed value but one: for the empty string, which is well formed,
  \<open>setItem\<close> stores the empty Base64 text, and \<open>getItem\<close> takes the stored empty text
  for a missing entry (\<open>if (!encoded) return null\<close>) and returns \<open>null\<close>, not the empty
  string. The theorem runs both calls on the key \<open>draft\<close> in a browser whose storage is
  empty.
\<close>

theorem C10_empty_value_reads_null:
  "secureStorage_setItem (js ''draft'') []
       \<lparr> has_window = True, sessionStorage = Map.empty, localStorage = Map.empty \<rparr>
     = Inr \<lparr> has_window = True, sessionStorage = Map.empty,
             localStorage = [secure_key (js ''draft'') \<mapsto> []] \<rparr>
   \<and> secureStorage_getItem (js ''draft'')
       \<lparr> has_window = True, sessionStorage = Map.empty,
         localStorage = [secure_key (js ''draft'') \<mapsto> []] \<rparr>
     = None
   \<and> secureStorage_getItem (js ''draft'')
       \<lparr> has_window = True, sessionStorage = Map.empty,
         localStorage = [secure_key (js ''draft'') \<mapsto> []] \<rparr>
     \<noteq> Some []"
  by (simp add: secureStorage_setItem_def secureStorage_getItem_def encode_empty)

end
